theory Spec2Isabelle
  imports Main "HOL-Library.List_Lexorder"
begin

section \<open>Strings and numbers of the host language\<close>

text \<open>
  A JavaScript string is a sequence of UTF-16 code units: \<open>length\<close>, \<open>slice\<close>,
  \<open>startsWith\<close>, \<open>includes\<close> and the default order of \<open>Array.prototype.sort\<close> all
  count and compare code units. A string is therefore a list of code units, each given
  by its number; \<open>str\<close> embeds an ASCII literal.
\<close>

type_synonym jsstring = "nat list"

definition str :: "string \<Rightarrow> jsstring" where
  "str s = map of_char s"

text \<open>The non-ASCII glyphs of the source: \<open>U+2026\<close> (ellipsis), \<open>U+2192\<close> (arrow),
  \<open>U+251C U+2500\<close> (tee), \<open>U+2514 U+2500\<close> (ell), \<open>U+2502\<close> (pipe).\<close>

definition ellipsis :: jsstring where
  "ellipsis = [0x2026]"

definition arrow :: jsstring where
  "arrow = [0x2192]"

definition startsWith :: "jsstring \<Rightarrow> jsstring \<Rightarrow> bool" where
  "startsWith s p = (take (length p) s = p)"

fun includes_js :: "jsstring \<Rightarrow> jsstring \<Rightarrow> bool" where
  "includes_js [] p = (p = [])"
| "includes_js (c # cs) p = (startsWith (c # cs) p \<or> includes_js cs p)"

text \<open>
  A JavaScript number, restricted to the values whose arithmetic is exact: the integers,
  the two infinities and NaN. Non-integral doubles are outside the model.
\<close>

datatype jsnum = Num int | PosInf | NegInf | NaN

fun js_lt :: "jsnum \<Rightarrow> jsnum \<Rightarrow> bool" where
  "js_lt NaN _ = False"
| "js_lt _ NaN = False"
| "js_lt (Num a) (Num b) = (a < b)"
| "js_lt PosInf _ = False"
| "js_lt _ PosInf = True"
| "js_lt NegInf NegInf = False"
| "js_lt NegInf _ = True"
| "js_lt _ NegInf = False"

definition js_gt :: "jsnum \<Rightarrow> jsnum \<Rightarrow> bool" where
  "js_gt a b = js_lt b a"

fun js_ge :: "jsnum \<Rightarrow> jsnum \<Rightarrow> bool" where
  "js_ge NaN _ = False"
| "js_ge _ NaN = False"
| "js_ge a b = (\<not> js_lt a b)"

fun Math_min :: "jsnum \<Rightarrow> jsnum \<Rightarrow> jsnum" where
  "Math_min NaN _ = NaN"
| "Math_min _ NaN = NaN"
| "Math_min a b = (if js_lt b a then b else a)"

fun js_sub :: "jsnum \<Rightarrow> jsnum \<Rightarrow> jsnum" where
  "js_sub NaN _ = NaN"
| "js_sub _ NaN = NaN"
| "js_sub (Num a) (Num b) = Num (a - b)"
| "js_sub PosInf PosInf = NaN"
| "js_sub NegInf NegInf = NaN"
| "js_sub PosInf _ = PosInf"
| "js_sub NegInf _ = NegInf"
| "js_sub _ PosInf = NegInf"
| "js_sub _ NegInf = PosInf"

text \<open>Decimal digits of a natural number, most significant first.\<close>

fun digits :: "nat \<Rightarrow> jsstring" where
  "digits n = (if n < 10 then [48 + n] else digits (n div 10) @ [48 + n mod 10])"

declare digits.simps [simp del]

definition int_to_string :: "int \<Rightarrow> jsstring" where
  "int_to_string i = (if i < 0 then str ''-'' @ digits (nat (- i)) else digits (nat i))"

text \<open>\<open>String(n)\<close> for a number (the decimal form is the one JavaScript prints for
  integers of magnitude below \<open>10^21\<close>).\<close>

fun String_number :: "jsnum \<Rightarrow> jsstring" where
  "String_number (Num i) = int_to_string i"
| "String_number PosInf = str ''Infinity''"
| "String_number NegInf = str ''-Infinity''"
| "String_number NaN = str ''NaN''"

text \<open>
  \<open>s.slice(0, end)\<close>: the end index is converted to an integer (NaN to 0); a negative
  end counts from the end of the string; the result is the code units before it.
\<close>

fun slice0 :: "jsstring \<Rightarrow> jsnum \<Rightarrow> jsstring" where
  "slice0 s NaN = []"
| "slice0 s PosInf = s"
| "slice0 s NegInf = []"
| "slice0 s (Num e) =
     (if e < 0 then take (nat (max (int (length s) + e) 0)) s
      else take (nat (min e (int (length s)))) s)"


section \<open>Values\<close>

text \<open>
  The values \<open>render\<close> can be given, as far as the handlers look at them:
  \<^item> a symbol by its description (empty when it has none);
  \<^item> a \<open>Date\<close> by its time value in milliseconds, \<open>None\<close> for the invalid date whose
    time value is NaN (\<open>new Date("x")\<close>);
  \<^item> a \<open>RegExp\<close> by its source and its flags;
  \<^item> an array and a \<open>Set\<close> by their elements in iteration order (a hole of an array
    reads as \<open>undefined\<close>);
  \<^item> a \<open>Map\<close> by its entries in iteration order, each key given by \<open>String(key)\<close>, the
    only use the program makes of a key;
  \<^item> a function by its \<open>name\<close> and by the text \<open>Function.prototype.toString\<close> gives;
  \<^item> an object whose prototype is neither \<open>Object.prototype\<close> nor \<open>null\<close> (and which
    is none of the above) by the name of its constructor (empty when unavailable) and
    its own enumerable string-keyed properties in the order of \<open>Object.keys\<close>;
  \<^item> a plain object by its own enumerable string-keyed properties in the order of
    \<open>Object.keys\<close>.
  Values are finite trees: an object graph with a cycle is not a value of this type.
\<close>

datatype jsval =
    VNull
  | VUndefined
  | VBoolean bool
  | VNumber jsnum
  | VBigInt int
  | VSymbol jsstring
  | VString jsstring
  | VDate "int option"
  | VRegExp jsstring jsstring
  | VArray "jsval list"
  | VSet "jsval list"
  | VMap "(jsstring \<times> jsval) list"
  | VFunction jsstring jsstring
  | VInstance jsstring "(jsstring \<times> jsval) list"
  | VObject "(jsstring \<times> jsval) list"

datatype js_error = RangeError

section \<open>types.ts\<close>

type_synonym Color = string

datatype Quotes = Q_single | Q_double | Q_none

datatype DateFormat = F_none | F_iso | F_locale

record Chars =
  tee :: jsstring
  ell :: jsstring
  pipe :: jsstring

record Colors =
  c_string :: Color
  c_number :: Color
  c_boolean :: Color
  c_null :: Color
  c_undefined :: Color
  c_bigint :: Color
  c_symbol :: Color
  c_function :: Color
  c_class :: Color
  c_date :: Color
  c_regexp :: Color
  c_array :: Color
  c_object :: Color
  c_set :: Color
  c_map :: Color
  c_instance :: Color

record StringOptions =
  maxLength :: jsnum
  quotes :: Quotes

record ArrayOptions =
  array_maxItems :: jsnum
  showLength :: bool

record ObjectOptions =
  maxKeys :: jsnum
  sortKeys :: bool

record SetOptions =
  set_maxItems :: jsnum
  set_showSize :: bool

record MapOptions =
  map_maxItems :: jsnum
  map_showSize :: bool
  map_divider :: jsstring

record DateOptions =
  format :: DateFormat

record ResolvedOptions =
  chars :: Chars
  connectorColor :: Color
  indent :: jsstring
  maxDepth :: jsnum
  showRoot :: bool
  colors :: Colors
  string_opts :: StringOptions
  array_opts :: ArrayOptions
  object_opts :: ObjectOptions
  set_opts :: SetOptions
  map_opts :: MapOptions
  date_opts :: DateOptions

text \<open>\<open>ObjectTreeOptions\<close>: every section and every field of a section may be absent
  (\<open>None\<close>).\<close>

record CharsPartial =
  tee_opt :: "jsstring option"
  ell_opt :: "jsstring option"
  pipe_opt :: "jsstring option"

record ColorsPartial =
  c_string_opt :: "Color option"
  c_number_opt :: "Color option"
  c_boolean_opt :: "Color option"
  c_null_opt :: "Color option"
  c_undefined_opt :: "Color option"
  c_bigint_opt :: "Color option"
  c_symbol_opt :: "Color option"
  c_function_opt :: "Color option"
  c_class_opt :: "Color option"
  c_date_opt :: "Color option"
  c_regexp_opt :: "Color option"
  c_array_opt :: "Color option"
  c_object_opt :: "Color option"
  c_set_opt :: "Color option"
  c_map_opt :: "Color option"
  c_instance_opt :: "Color option"

record StringPartial =
  maxLength_opt :: "jsnum option"
  quotes_opt :: "Quotes option"

record ArrayPartial =
  array_maxItems_opt :: "jsnum option"
  showLength_opt :: "bool option"

record ObjectPartial =
  maxKeys_opt :: "jsnum option"
  sortKeys_opt :: "bool option"

record SetPartial =
  set_maxItems_opt :: "jsnum option"
  set_showSize_opt :: "bool option"

record MapPartial =
  map_maxItems_opt :: "jsnum option"
  map_showSize_opt :: "bool option"
  map_divider_opt :: "jsstring option"

record DatePartial =
  format_opt :: "DateFormat option"

record ObjectTreeOptions =
  o_chars :: "CharsPartial option"
  o_connectorColor :: "Color option"
  o_indent :: "jsstring option"
  o_maxDepth :: "jsnum option"
  o_showRoot :: "bool option"
  o_colors :: "ColorsPartial option"
  o_string :: "StringPartial option"
  o_array :: "ArrayPartial option"
  o_object :: "ObjectPartial option"
  o_set :: "SetPartial option"
  o_map :: "MapPartial option"
  o_date :: "DatePartial option"

text \<open>\<open>RenderResult\<close> and the entries of its \<open>children\<close>.\<close>

record ChildEntry =
  key :: jsstring
  val :: jsval
  divider :: "jsstring option"

record RenderResult =
  header :: jsstring
  children :: "ChildEntry list option"

section \<open>The color library\<close>

text \<open>
  What the program reads of its environment: the color support level \<open>chalk.level\<close>,
  the styling function \<open>chalk[color]\<close>, and the two date formatters of the host for a
  valid time value.
\<close>

record Env =
  chalk_level :: nat
  chalk :: "Color \<Rightarrow> jsstring \<Rightarrow> jsstring"
  toISOString :: "int \<Rightarrow> jsstring"
  toLocaleString :: "int \<Rightarrow> jsstring"


section \<open>handlers.ts\<close>

text \<open>\<open>colorize\<close>: style the text when the terminal supports colors.\<close>

definition colorize :: "Env \<Rightarrow> jsstring \<Rightarrow> Color \<Rightarrow> jsstring" where
  "colorize env text color = (if chalk_level env > 0 then chalk env color text else text)"

text \<open>\<open>isPlainObject\<close>: an object whose prototype is \<open>Object.prototype\<close> or \<open>null\<close>.
  The handlers below match on the shape of the value; \<open>handleObject\<close> takes the values
  \<open>isPlainObject\<close> holds for, \<open>handleInstance\<close> the other objects that are no date,
  regular expression, set, map or array.\<close>

fun isPlainObject :: "jsval \<Rightarrow> bool" where
  "isPlainObject (VObject _) = True"
| "isPlainObject _ = False"

text \<open>\<open>isClass\<close>: a function whose source text starts with \<open>class\<close> and a space.\<close>

fun isClass :: "jsval \<Rightarrow> bool" where
  "isClass (VFunction name src) = startsWith src (str ''class '')"
| "isClass _ = False"

definition truncationEntry :: "jsnum \<Rightarrow> ChildEntry" where
  "truncationEntry remaining =
     \<lparr>key = ellipsis,
      val = VString (str ''+'' @ String_number remaining @ str '' more''),
      divider = None\<rparr>"

type_synonym Handler = "Env \<Rightarrow> jsval \<Rightarrow> ResolvedOptions \<Rightarrow> js_error + RenderResult option"

text \<open>A handler returns \<open>Inr None\<close> where the source returns \<open>null\<close>, and \<open>Inl e\<close>
  where a call it makes throws.\<close>

fun handlePrimitive :: Handler where
  "handlePrimitive env VNull opts =
     Inr (Some \<lparr>header = colorize env (str ''null'') (c_null (colors opts)), children = None\<rparr>)"
| "handlePrimitive env VUndefined opts =
     Inr (Some \<lparr>header = colorize env (str ''undefined'') (c_undefined (colors opts)),
                children = None\<rparr>)"
| "handlePrimitive env (VBoolean b) opts =
     Inr (Some \<lparr>header = colorize env (if b then str ''true'' else str ''false'')
                           (c_boolean (colors opts)),
                children = None\<rparr>)"
| "handlePrimitive env (VNumber n) opts =
     (let text = (if n = NaN then str ''NaN'' else String_number n)
      in Inr (Some \<lparr>header = colorize env text (c_number (colors opts)), children = None\<rparr>))"
| "handlePrimitive env (VBigInt i) opts =
     Inr (Some \<lparr>header = colorize env (int_to_string i @ str ''n'') (c_bigint (colors opts)),
                children = None\<rparr>)"
| "handlePrimitive env (VSymbol d) opts =
     Inr (Some \<lparr>header = colorize env (str ''Symbol('' @ d @ str '')'') (c_symbol (colors opts)),
                children = None\<rparr>)"
| "handlePrimitive env _ opts = Inr None"

fun handleString :: Handler where
  "handleString env (VString v) opts =
     (let maxLength = maxLength (string_opts opts);
          quotes = quotes (string_opts opts);
          truncated = (if js_gt (Num (int (length v))) maxLength
                       then slice0 v (js_sub maxLength (Num 1)) @ ellipsis else v);
          text = (if quotes = Q_single then str [CHR 0x27] @ truncated @ str [CHR 0x27]
                  else if quotes = Q_double then str [CHR 0x22] @ truncated @ str [CHR 0x22]
                  else truncated)
      in Inr (Some \<lparr>header = colorize env text (c_string (colors opts)), children = None\<rparr>))"
| "handleString env _ opts = Inr None"

text \<open>\<open>value[i]\<close> on an array: \<open>undefined\<close> beyond its length.\<close>

definition array_get :: "jsval list \<Rightarrow> nat \<Rightarrow> jsval" where
  "array_get xs i = (if i < length xs then xs ! i else VUndefined)"

text \<open>\<open>keys[i]\<close>: \<open>undefined\<close> (\<open>None\<close>) beyond the length.\<close>

definition keys_get :: "jsstring list \<Rightarrow> nat \<Rightarrow> jsstring option" where
  "keys_get ks i = (if i < length ks then Some (ks ! i) else None)"

text \<open>\<open>value[k]\<close> on an object: \<open>undefined\<close> for a missing property.\<close>

definition get_property :: "(jsstring \<times> jsval) list \<Rightarrow> jsstring \<Rightarrow> jsval" where
  "get_property props k = (case map_of props k of Some v \<Rightarrow> v | None \<Rightarrow> VUndefined)"

definition Object_keys :: "(jsstring \<times> jsval) list \<Rightarrow> jsstring list" where
  "Object_keys props = map fst props"

lemma js_lt_Math_min_Num: "js_lt (Num i) (Math_min (Num n) m) \<Longrightarrow> i < n"
  by (cases m) (auto split: if_splits)

text \<open>
  The loop \<open>for (let i = 0; i < toShow; i += 1)\<close> of \<open>handleArray\<close>, where
  \<open>toShow = Math.min(len, maxItems)\<close>.
\<close>

function array_loop :: "jsval list \<Rightarrow> jsnum \<Rightarrow> nat \<Rightarrow> ChildEntry list \<Rightarrow> ChildEntry list" where
  "array_loop v maxItems i entries =
     (if js_lt (Num (int i)) (Math_min (Num (int (length v))) maxItems)
      then array_loop v maxItems (i + 1)
             (entries @ [\<lparr>key = String_number (Num (int i)), val = array_get v i, divider = None\<rparr>])
      else entries)"
  by pat_completeness auto
termination
  by (relation "measure (\<lambda>(v, maxItems, i, entries). length v - i)")
     (auto dest: js_lt_Math_min_Num)

declare array_loop.simps [simp del]

fun handleArray :: Handler where
  "handleArray env (VArray v) opts =
     (let maxItems = array_maxItems (array_opts opts);
          showLength = showLength (array_opts opts);
          len = Num (int (length v));
          toShow = Math_min len maxItems;
          children = array_loop v maxItems 0 [];
          children = (if js_lt toShow len then children @ [truncationEntry (js_sub len toShow)]
                      else children);
          label = (if showLength then str ''Array('' @ String_number len @ str '')''
                   else str ''Array'')
      in Inr (Some \<lparr>header = colorize env label (c_array (colors opts)),
                     children = Some children\<rparr>))"
| "handleArray env _ opts = Inr None"

text \<open>The loop \<open>for (const item of value)\<close> of \<open>handleSet\<close>, left at \<open>i >= toShow\<close>.\<close>

fun set_loop :: "jsval list \<Rightarrow> jsnum \<Rightarrow> nat \<Rightarrow> ChildEntry list \<Rightarrow> ChildEntry list" where
  "set_loop [] toShow i entries = entries"
| "set_loop (item # rest) toShow i entries =
     (if js_ge (Num (int i)) toShow then entries
      else set_loop rest toShow (i + 1)
             (entries @ [\<lparr>key = String_number (Num (int i)), val = item, divider = None\<rparr>]))"

fun handleSet :: Handler where
  "handleSet env (VSet v) opts =
     (let maxItems = set_maxItems (set_opts opts);
          showSize = set_showSize (set_opts opts);
          sz = Num (int (length v));
          toShow = Math_min sz maxItems;
          children = set_loop v toShow 0 [];
          children = (if js_lt toShow sz then children @ [truncationEntry (js_sub sz toShow)]
                      else children);
          label = (if showSize then str ''Set('' @ String_number sz @ str '')''
                   else str ''Set'')
      in Inr (Some \<lparr>header = colorize env label (c_set (colors opts)),
                     children = Some children\<rparr>))"
| "handleSet env _ opts = Inr None"

text \<open>The loop \<open>for (const [k, v] of value)\<close> of \<open>handleMap\<close>.\<close>

fun map_loop ::
  "(jsstring \<times> jsval) list \<Rightarrow> jsnum \<Rightarrow> jsstring \<Rightarrow> nat \<Rightarrow> ChildEntry list \<Rightarrow> ChildEntry list" where
  "map_loop [] toShow dv i entries = entries"
| "map_loop ((k, v) # rest) toShow dv i entries =
     (if js_ge (Num (int i)) toShow then entries
      else map_loop rest toShow dv (i + 1)
             (entries @ [\<lparr>key = k, val = v, divider = Some dv\<rparr>]))"

fun handleMap :: Handler where
  "handleMap env (VMap v) opts =
     (let maxItems = map_maxItems (map_opts opts);
          showSize = map_showSize (map_opts opts);
          dv = map_divider (map_opts opts);
          sz = Num (int (length v));
          toShow = Math_min sz maxItems;
          children = map_loop v toShow dv 0 [];
          children = (if js_lt toShow sz then children @ [truncationEntry (js_sub sz toShow)]
                      else children);
          label = (if showSize then str ''Map('' @ String_number sz @ str '')''
                   else str ''Map'')
      in Inr (Some \<lparr>header = colorize env label (c_map (colors opts)),
                     children = Some children\<rparr>))"
| "handleMap env _ opts = Inr None"

fun handleFunction :: Handler where
  "handleFunction env (VFunction name src) opts =
     (if isClass (VFunction name src) then Inr None
      else let name = (if name = [] then str ''anonymous'' else name)
           in Inr (Some \<lparr>header = colorize env (str ''Function('' @ name @ str '')'')
                                      (c_function (colors opts)),
                          children = None\<rparr>))"
| "handleFunction env _ opts = Inr None"

fun handleClass :: Handler where
  "handleClass env (VFunction name src) opts =
     (if \<not> isClass (VFunction name src) then Inr None
      else let name = (if name = [] then str ''anonymous'' else name)
           in Inr (Some \<lparr>header = colorize env (str ''Class('' @ name @ str '')'')
                                      (c_class (colors opts)),
                          children = None\<rparr>))"
| "handleClass env _ opts = Inr None"

text \<open>
  \<open>Date.prototype.toISOString\<close> throws a \<open>RangeError\<close> on an invalid date;
  \<open>Date.prototype.toLocaleString\<close> returns the text \<open>Invalid Date\<close> for it.
\<close>

fun Date_toISOString :: "Env \<Rightarrow> int option \<Rightarrow> js_error + jsstring" where
  "Date_toISOString env None = Inl RangeError"
| "Date_toISOString env (Some t) = Inr (toISOString env t)"

fun Date_toLocaleString :: "Env \<Rightarrow> int option \<Rightarrow> jsstring" where
  "Date_toLocaleString env None = str ''Invalid Date''"
| "Date_toLocaleString env (Some t) = toLocaleString env t"

fun handleDate :: Handler where
  "handleDate env (VDate t) opts =
     (let format = format (date_opts opts)
      in if format = F_iso then
           (case Date_toISOString env t of
              Inl e \<Rightarrow> Inl e
            | Inr isoText \<Rightarrow>
                Inr (Some \<lparr>header = colorize env (str ''Date('' @ isoText @ str '')'')
                                       (c_date (colors opts)),
                           children = None\<rparr>))
         else if format = F_locale then
           Inr (Some \<lparr>header = colorize env (str ''Date('' @ Date_toLocaleString env t @ str '')'')
                                  (c_date (colors opts)),
                      children = None\<rparr>)
         else Inr (Some \<lparr>header = colorize env (str ''Date()'') (c_date (colors opts)),
                         children = None\<rparr>))"
| "handleDate env _ opts = Inr None"

fun handleRegExp :: Handler where
  "handleRegExp env (VRegExp source flags) opts =
     Inr (Some \<lparr>header = colorize env (str ''/'' @ source @ str ''/'' @ flags)
                           (c_regexp (colors opts)),
                children = None\<rparr>)"
| "handleRegExp env _ opts = Inr None"

text \<open>
  The loop \<open>for (let i = 0; i < toShow; i += 1)\<close> of \<open>handleObject\<close> and
  \<open>handleInstance\<close>, where \<open>toShow = Math.min(keys.length, maxKeys)\<close>; an entry is pushed
  when \<open>keys[i]\<close> is not \<open>undefined\<close>.
\<close>

function object_loop ::
  "(jsstring \<times> jsval) list \<Rightarrow> jsstring list \<Rightarrow> jsnum \<Rightarrow> nat \<Rightarrow> ChildEntry list \<Rightarrow> ChildEntry list" where
  "object_loop v keys limit i entries =
     (if js_lt (Num (int i)) (Math_min (Num (int (length keys))) limit)
      then (case keys_get keys i of
              Some k \<Rightarrow> object_loop v keys limit (i + 1)
                          (entries @ [\<lparr>key = k, val = get_property v k, divider = None\<rparr>])
            | None \<Rightarrow> object_loop v keys limit (i + 1) entries)
      else entries)"
  by pat_completeness auto
termination
  by (relation "measure (\<lambda>(v, keys, limit, i, entries). length keys - i)")
     (auto dest: js_lt_Math_min_Num)

declare object_loop.simps [simp del]

fun handleObject :: Handler where
  "handleObject env (VObject v) opts =
     (let maxKeys = maxKeys (object_opts opts);
          sortKeys = sortKeys (object_opts opts);
          keys = Object_keys v;
          keys = (if sortKeys then sort keys else keys);
          len = Num (int (length keys));
          toShow = Math_min len maxKeys;
          children = object_loop v keys maxKeys 0 [];
          children = (if js_lt toShow len then children @ [truncationEntry (js_sub len toShow)]
                      else children)
      in Inr (Some \<lparr>header = colorize env (str ''Object{}'') (c_object (colors opts)),
                     children = Some children\<rparr>))"
| "handleObject env _ opts = Inr None"

fun handleInstance :: Handler where
  "handleInstance env (VInstance ctor v) opts =
     (let ctorName = (if ctor = [] then str ''Object'' else ctor);
          ownKeys = Object_keys v;
          len = Num (int (length ownKeys));
          toShow = Math_min len (maxKeys (object_opts opts));
          children = object_loop v ownKeys (maxKeys (object_opts opts)) 0 [];
          children = (if js_lt toShow len then children @ [truncationEntry (js_sub len toShow)]
                      else children)
      in Inr (Some \<lparr>header = colorize env (ctorName @ str ''{}'') (c_instance (colors opts)),
                     children = Some children\<rparr>))"
| "handleInstance env _ opts = Inr None"

text \<open>The handler chain, in the order of the source.\<close>

definition handlers :: "Handler list" where
  "handlers =
     [handlePrimitive, handleString, handleDate, handleRegExp, handleArray, handleSet,
      handleMap, handleFunction, handleClass, handleInstance, handleObject]"

text \<open>\<open>renderValue\<close>: the result of the first handler that does not return \<open>null\<close>.\<close>

fun first_match :: "Handler list \<Rightarrow> Env \<Rightarrow> jsval \<Rightarrow> ResolvedOptions \<Rightarrow> js_error + RenderResult" where
  "first_match [] env v opts = Inr \<lparr>header = str ''Unknown'', children = None\<rparr>"
| "first_match (handler # rest) env v opts =
     (case handler env v opts of
        Inl e \<Rightarrow> Inl e
      | Inr (Some result) \<Rightarrow> Inr result
      | Inr None \<Rightarrow> first_match rest env v opts)"

definition renderValue :: "Env \<Rightarrow> jsval \<Rightarrow> ResolvedOptions \<Rightarrow> js_error + RenderResult" where
  "renderValue env v opts = first_match handlers env v opts"


section \<open>object-tree.ts\<close>

definition defaults :: ResolvedOptions where
  "defaults =
     \<lparr>chars = \<lparr>tee = [0x251C, 0x2500], ell = [0x2514, 0x2500], pipe = [0x2502]\<rparr>,
      connectorColor = ''gray'',
      indent = str ''  '',
      maxDepth = PosInf,
      showRoot = False,
      colors =
        \<lparr>c_string = ''green'', c_number = ''cyan'', c_boolean = ''yellow'', c_null = ''red'',
         c_undefined = ''gray'', c_bigint = ''cyan'', c_symbol = ''magenta'',
         c_function = ''gray'', c_class = ''cyan'', c_date = ''magenta'', c_regexp = ''red'',
         c_array = ''yellow'', c_object = ''cyan'', c_set = ''green'', c_map = ''blue'',
         c_instance = ''cyan''\<rparr>,
      string_opts = \<lparr>maxLength = Num 80, quotes = Q_double\<rparr>,
      array_opts = \<lparr>array_maxItems = PosInf, showLength = True\<rparr>,
      object_opts = \<lparr>maxKeys = PosInf, sortKeys = True\<rparr>,
      set_opts = \<lparr>set_maxItems = PosInf, set_showSize = True\<rparr>,
      map_opts = \<lparr>map_maxItems = PosInf, map_showSize = True,
                  map_divider = str '' '' @ arrow @ str '' ''\<rparr>,
      date_opts = \<lparr>format = F_none\<rparr>\<rparr>"

text \<open>\<open>a ?? b\<close>, and the value a property has after the spread \<open>{...d, ...u}\<close>: the one
  of \<open>u\<close> when \<open>u\<close> has the property, the one of \<open>d\<close> otherwise.\<close>

fun nullish :: "'a option \<Rightarrow> 'a \<Rightarrow> 'a" where
  "nullish None d = d"
| "nullish (Some x) d = x"

fun spread_chars :: "Chars \<Rightarrow> CharsPartial option \<Rightarrow> Chars" where
  "spread_chars d None = d"
| "spread_chars d (Some u) =
     \<lparr>tee = nullish (tee_opt u) (tee d), ell = nullish (ell_opt u) (ell d),
      pipe = nullish (pipe_opt u) (pipe d)\<rparr>"

fun spread_colors :: "Colors \<Rightarrow> ColorsPartial option \<Rightarrow> Colors" where
  "spread_colors d None = d"
| "spread_colors d (Some u) =
     \<lparr>c_string = nullish (c_string_opt u) (c_string d),
      c_number = nullish (c_number_opt u) (c_number d),
      c_boolean = nullish (c_boolean_opt u) (c_boolean d),
      c_null = nullish (c_null_opt u) (c_null d),
      c_undefined = nullish (c_undefined_opt u) (c_undefined d),
      c_bigint = nullish (c_bigint_opt u) (c_bigint d),
      c_symbol = nullish (c_symbol_opt u) (c_symbol d),
      c_function = nullish (c_function_opt u) (c_function d),
      c_class = nullish (c_class_opt u) (c_class d),
      c_date = nullish (c_date_opt u) (c_date d),
      c_regexp = nullish (c_regexp_opt u) (c_regexp d),
      c_array = nullish (c_array_opt u) (c_array d),
      c_object = nullish (c_object_opt u) (c_object d),
      c_set = nullish (c_set_opt u) (c_set d),
      c_map = nullish (c_map_opt u) (c_map d),
      c_instance = nullish (c_instance_opt u) (c_instance d)\<rparr>"

fun spread_string :: "StringOptions \<Rightarrow> StringPartial option \<Rightarrow> StringOptions" where
  "spread_string d None = d"
| "spread_string d (Some u) =
     \<lparr>maxLength = nullish (maxLength_opt u) (maxLength d),
      quotes = nullish (quotes_opt u) (quotes d)\<rparr>"

fun spread_array :: "ArrayOptions \<Rightarrow> ArrayPartial option \<Rightarrow> ArrayOptions" where
  "spread_array d None = d"
| "spread_array d (Some u) =
     \<lparr>array_maxItems = nullish (array_maxItems_opt u) (array_maxItems d),
      showLength = nullish (showLength_opt u) (showLength d)\<rparr>"

fun spread_object :: "ObjectOptions \<Rightarrow> ObjectPartial option \<Rightarrow> ObjectOptions" where
  "spread_object d None = d"
| "spread_object d (Some u) =
     \<lparr>maxKeys = nullish (maxKeys_opt u) (maxKeys d),
      sortKeys = nullish (sortKeys_opt u) (sortKeys d)\<rparr>"

fun spread_set :: "SetOptions \<Rightarrow> SetPartial option \<Rightarrow> SetOptions" where
  "spread_set d None = d"
| "spread_set d (Some u) =
     \<lparr>set_maxItems = nullish (set_maxItems_opt u) (set_maxItems d),
      set_showSize = nullish (set_showSize_opt u) (set_showSize d)\<rparr>"

fun spread_map :: "MapOptions \<Rightarrow> MapPartial option \<Rightarrow> MapOptions" where
  "spread_map d None = d"
| "spread_map d (Some u) =
     \<lparr>map_maxItems = nullish (map_maxItems_opt u) (map_maxItems d),
      map_showSize = nullish (map_showSize_opt u) (map_showSize d),
      map_divider = nullish (map_divider_opt u) (map_divider d)\<rparr>"

fun spread_date :: "DateOptions \<Rightarrow> DatePartial option \<Rightarrow> DateOptions" where
  "spread_date d None = d"
| "spread_date d (Some u) = \<lparr>format = nullish (format_opt u) (format d)\<rparr>"

definition resolveOptions :: "ObjectTreeOptions \<Rightarrow> ResolvedOptions" where
  "resolveOptions opts =
     \<lparr>chars = spread_chars (chars defaults) (o_chars opts),
      connectorColor = nullish (o_connectorColor opts) (connectorColor defaults),
      indent = nullish (o_indent opts) (indent defaults),
      maxDepth = nullish (o_maxDepth opts) (maxDepth defaults),
      showRoot = nullish (o_showRoot opts) (showRoot defaults),
      colors = spread_colors (colors defaults) (o_colors opts),
      string_opts = spread_string (string_opts defaults) (o_string opts),
      array_opts = spread_array (array_opts defaults) (o_array opts),
      object_opts = spread_object (object_opts defaults) (o_object opts),
      set_opts = spread_set (set_opts defaults) (o_set opts),
      map_opts = spread_map (map_opts defaults) (o_map opts),
      date_opts = spread_date (date_opts defaults) (o_date opts)\<rparr>"

text \<open>The options object \<open>{}\<close>.\<close>

definition no_options :: ObjectTreeOptions where
  "no_options =
     \<lparr>o_chars = None, o_connectorColor = None, o_indent = None, o_maxDepth = None,
      o_showRoot = None, o_colors = None, o_string = None, o_array = None, o_object = None,
      o_set = None, o_map = None, o_date = None\<rparr>"

definition connector :: "Env \<Rightarrow> jsstring \<Rightarrow> ResolvedOptions \<Rightarrow> jsstring" where
  "connector env char opts =
     (if chalk_level env > 0 then chalk env (connectorColor opts) char else char)"

text \<open>\<open>buildPrefix\<close>: the loop over \<open>levels\<close>, then the connector of the node.\<close>

fun prefix_loop :: "Env \<Rightarrow> ResolvedOptions \<Rightarrow> bool list \<Rightarrow> jsstring \<Rightarrow> jsstring" where
  "prefix_loop env opts [] prefix = prefix"
| "prefix_loop env opts (hasMoreSiblings # rest) prefix =
     prefix_loop env opts rest
       (prefix @ (if hasMoreSiblings then connector env (pipe (chars opts)) opts @ indent opts
                  else str '' '' @ indent opts))"

definition buildPrefix :: "Env \<Rightarrow> ResolvedOptions \<Rightarrow> bool list \<Rightarrow> bool option \<Rightarrow> jsstring" where
  "buildPrefix env opts levels isLast =
     (let prefix = prefix_loop env opts levels []
      in case isLast of
           None \<Rightarrow> prefix
         | Some l \<Rightarrow>
             prefix @ (if l then connector env (ell (chars opts)) opts @ str '' ''
                       else connector env (tee (chars opts)) opts @ str '' ''))"

text \<open>
  The test the walker makes before classifying a value:
  \<open>typeof value === "string" && value.startsWith("+") && value.includes("more")\<close>.
  It gives the string when the test succeeds.
\<close>

fun truncation_marker :: "jsval \<Rightarrow> jsstring option" where
  "truncation_marker (VString s) =
     (if startsWith s (str ''+'') \<and> includes_js s (str ''more'') then Some s else None)"
| "truncation_marker _ = None"

text \<open>Termination of the walk: a child handed out by \<open>renderValue\<close> is smaller than
  the value it was made from.\<close>

fun entries_bound :: "ChildEntry list \<Rightarrow> nat" where
  "entries_bound [] = 0"
| "entries_bound (c # cs) = max (size (val c) + 1) (entries_bound cs)"

lemma size_val_props: "(k, x) \<in> set ps \<Longrightarrow> size x < Suc (size_list (size_prod (\<lambda>_. 0) size) ps)"
  by (induction ps) auto

lemma size_get_property: "size (get_property ps k) < Suc (size_list (size_prod (\<lambda>_. 0) size) ps)"
  by (auto simp: get_property_def split: option.splits dest!: map_of_SomeD size_val_props)

lemma array_loop_val:
  "c \<in> set (array_loop v m i acc) \<Longrightarrow> c \<in> set acc \<or> val c \<in> set v"
proof (induction v m i acc rule: array_loop.induct)
  case (1 v maxItems i entries)
  show ?case
  proof (cases "js_lt (Num (int i)) (Math_min (Num (int (length v))) maxItems)")
    case True
    then have "i < length v" by (auto dest: js_lt_Math_min_Num)
    with 1 True show ?thesis
      by (subst (asm) (2) array_loop.simps) (auto simp: array_get_def)
  next
    case False
    with 1 show ?thesis by (subst (asm) (2) array_loop.simps) simp
  qed
qed

lemma set_loop_val:
  "c \<in> set (set_loop items t i acc) \<Longrightarrow> c \<in> set acc \<or> val c \<in> set items"
  by (induction items t i acc rule: set_loop.induct) (auto split: if_splits)

lemma map_loop_val:
  "c \<in> set (map_loop items t dv i acc) \<Longrightarrow> c \<in> set acc \<or> val c \<in> snd ` set items"
  by (induction items t dv i acc rule: map_loop.induct) (auto split: if_splits)

lemma object_loop_val:
  "c \<in> set (object_loop v ks m i acc) \<Longrightarrow> c \<in> set acc \<or> (\<exists>k. val c = get_property v k)"
proof (induction v ks m i acc rule: object_loop.induct)
  case (1 v keys limit i entries)
  show ?case
  proof (cases "js_lt (Num (int i)) (Math_min (Num (int (length keys))) limit)")
    case True
    with 1 show ?thesis
      by (subst (asm) (3) object_loop.simps) (auto split: option.splits)
  next
    case False
    with 1 show ?thesis by (subst (asm) (3) object_loop.simps) simp
  qed
qed

lemma val_truncationEntry: "size (val (truncationEntry n)) = 0"
  by (simp add: truncationEntry_def)

lemma renderValue_children_smaller:
  assumes "renderValue env v opts = Inr r" "children r = Some cs" "c \<in> set cs"
  shows "size (val c) < size v"
proof (cases v)
  case (VArray xs)
  with assms show ?thesis
    by (auto simp: renderValue_def handlers_def Let_def val_truncationEntry less_Suc_eq_le
        size_list_estimation' split: if_splits dest!: array_loop_val)
next
  case (VSet xs)
  with assms show ?thesis
    by (auto simp: renderValue_def handlers_def Let_def val_truncationEntry less_Suc_eq_le
        size_list_estimation' split: if_splits dest!: set_loop_val)
next
  case (VMap ps)
  with assms show ?thesis
    by (auto simp: renderValue_def handlers_def Let_def val_truncationEntry
        split: if_splits dest!: map_loop_val size_val_props)
next
  case (VInstance n ps)
  with assms show ?thesis
    using size_get_property [of ps]
    by (auto simp: renderValue_def handlers_def Let_def val_truncationEntry
        split: if_splits dest!: object_loop_val)
next
  case (VObject ps)
  with assms show ?thesis
    using size_get_property [of ps]
    by (auto simp: renderValue_def handlers_def Let_def val_truncationEntry
        split: if_splits dest!: object_loop_val)
qed (use assms in \<open>auto simp: renderValue_def handlers_def Let_def split: if_splits sum.splits\<close>)


lemma entries_bound_less:
  "(\<And>c. c \<in> set cs \<Longrightarrow> size (val c) < n) \<Longrightarrow> 0 < n \<Longrightarrow> entries_bound cs < n + 1"
  by (induction cs) auto

text \<open>
  \<open>walk\<close> takes the array \<open>lines\<close> it pushes to and returns it; an exception thrown by
  the classification leaves the walk, and \<open>render\<close>, at once (\<open>Inl\<close>). \<open>walk_children\<close> is
  the loop \<open>for (const [i, child] of result.children.entries())\<close>, from the entry of
  index \<open>i\<close> on.
\<close>

function walk ::
  "Env \<Rightarrow> ResolvedOptions \<Rightarrow> jsval \<Rightarrow> jsstring list \<Rightarrow> bool list \<Rightarrow> nat \<Rightarrow> jsstring option \<Rightarrow>
   bool option \<Rightarrow> jsstring \<Rightarrow> js_error + jsstring list"
and walk_children ::
  "Env \<Rightarrow> ResolvedOptions \<Rightarrow> ChildEntry list \<Rightarrow> nat \<Rightarrow> nat \<Rightarrow> jsstring list \<Rightarrow> bool list \<Rightarrow> nat \<Rightarrow>
   js_error + jsstring list"
where
  "walk env opts v lines levels depth keyLabel isLast dv =
     (if js_gt (Num (int depth)) (maxDepth opts) then Inr lines
      else case truncation_marker v of
        Some text \<Rightarrow>
          (let prefix = buildPrefix env opts levels isLast;
               label = (case keyLabel of Some k \<Rightarrow> k @ dv | None \<Rightarrow> [])
           in Inr (lines @ [prefix @ label @
                            (if chalk_level env > 0 then chalk env ''gray'' text else text)]))
      | None \<Rightarrow>
          (case renderValue env v opts of
             Inl e \<Rightarrow> Inl e
           | Inr result \<Rightarrow>
               (let lines =
                      (case keyLabel of
                         Some k \<Rightarrow>
                           lines @ [buildPrefix env opts levels isLast @ k @ dv @ header result]
                       | None \<Rightarrow>
                           if showRoot opts \<or> depth > 0
                           then lines @ [buildPrefix env opts levels isLast @ header result]
                           else lines)
                in case children result of
                     None \<Rightarrow> Inr lines
                   | Some cs \<Rightarrow>
                       if length cs > 0
                       then walk_children env opts cs 0 (length cs - 1) lines
                              (if depth = 0 then levels else levels @ [isLast \<noteq> Some True])
                              (depth + 1)
                       else Inr lines)))"
| "walk_children env opts [] i lastIndex lines childLevels depth = Inr lines"
| "walk_children env opts (child # rest) i lastIndex lines childLevels depth =
     (case walk env opts (val child) lines childLevels depth (Some (key child))
             (Some (i = lastIndex)) (case divider child of Some d \<Rightarrow> d | None \<Rightarrow> str '': '') of
        Inl e \<Rightarrow> Inl e
      | Inr lines' \<Rightarrow> walk_children env opts rest (i + 1) lastIndex lines' childLevels depth)"
  by pat_completeness auto
termination
proof (relation "inv_image (less_than <*lex*> less_than)
    (\<lambda>x. case x of
       Inl (env, opts, v, lines, levels, depth, keyLabel, isLast, dv) \<Rightarrow> (size v + 1, 0)
     | Inr (env, opts, cs, i, lastIndex, lines, childLevels, depth) \<Rightarrow>
         (entries_bound cs, length cs + 1))", goal_cases)
  case 1
  show ?case by (intro wf_inv_image wf_lex_prod wf_less_than)
next
  case (2 env opts v lines levels depth keyLabel isLast dv result lines' cs)
  have "entries_bound cs < size v + 1"
  proof (rule entries_bound_less)
    fix c assume "c \<in> set cs"
    with 2 show "size (val c) < size v"
      by (auto intro: renderValue_children_smaller)
  next
    from 2 obtain c where "c \<in> set cs" by (cases cs) auto
    with 2 have "size (val c) < size v" by (auto intro: renderValue_children_smaller)
    then show "0 < size v" by simp
  qed
  then show ?case by simp
next
  case 3
  then show ?case by (auto simp: max_def)
next
  case 4
  then show ?case by (auto simp: max_def)
qed

declare walk.simps [simp del]

text \<open>\<open>render\<close>: a fresh array of lines, filled by the walk from the root.\<close>

definition render :: "Env \<Rightarrow> ResolvedOptions \<Rightarrow> jsval \<Rightarrow> js_error + jsstring list" where
  "render env opts root = walk env opts root [] [] 0 None None (str '': '')"

text \<open>\<open>new ObjectTree(options).render(root)\<close>.\<close>

definition ObjectTree_render :: "Env \<Rightarrow> ObjectTreeOptions \<Rightarrow> jsval \<Rightarrow> js_error + jsstring list" where
  "ObjectTree_render env options root = render env (resolveOptions options) root"

text \<open>An environment without color support, as \<open>chalk.level = 0\<close> gives it.\<close>

definition plain_env :: Env where
  "plain_env =
     \<lparr>chalk_level = 0, chalk = (\<lambda>color text. text), toISOString = (\<lambda>t. []),
      toLocaleString = (\<lambda>t. [])\<rparr>"

section \<open>The children of a container\<close>

text \<open>
  The specification's reading of a limit (\<open>maxItems\<close>, \<open>maxKeys\<close>): a non-negative
  integer or the unbounded sentinel. \<open>limit_num\<close> is the number that stands for it in
  the options. For a container of true size \<open>S\<close> and limit \<open>M\<close>, the specification shows
  \<open>min(S, M)\<close> children and appends one truncation marker with count \<open>S - M\<close> if and only
  if \<open>M < S\<close>: this is \<open>spec_clamp\<close>, applied to the entries of all the elements.
\<close>

datatype limit = Bounded nat | Unbounded

fun limit_num :: "limit \<Rightarrow> jsnum" where
  "limit_num (Bounded m) = Num (int m)"
| "limit_num Unbounded = PosInf"

fun spec_shown :: "nat \<Rightarrow> limit \<Rightarrow> nat" where
  "spec_shown S (Bounded m) = min S m"
| "spec_shown S Unbounded = S"

fun spec_marker :: "nat \<Rightarrow> limit \<Rightarrow> ChildEntry list" where
  "spec_marker S (Bounded m) = (if m < S then [truncationEntry (Num (int S - int m))] else [])"
| "spec_marker S Unbounded = []"

definition spec_clamp :: "limit \<Rightarrow> ChildEntry list \<Rightarrow> ChildEntry list" where
  "spec_clamp M regular =
     take (spec_shown (length regular) M) regular @ spec_marker (length regular) M"

text \<open>The entries of all the elements: index and element of an array or a set, key
  and value of a map with the divider, key and property value of an object.\<close>

fun indexed_from :: "nat \<Rightarrow> jsval list \<Rightarrow> ChildEntry list" where
  "indexed_from i [] = []"
| "indexed_from i (x # xs) =
     \<lparr>key = String_number (Num (int i)), val = x, divider = None\<rparr> # indexed_from (i + 1) xs"

definition map_entries :: "jsstring \<Rightarrow> (jsstring \<times> jsval) list \<Rightarrow> ChildEntry list" where
  "map_entries dv ps = map (\<lambda>(k, v). \<lparr>key = k, val = v, divider = Some dv\<rparr>) ps"

definition property_entries :: "(jsstring \<times> jsval) list \<Rightarrow> jsstring list \<Rightarrow> ChildEntry list" where
  "property_entries ps ks = map (\<lambda>k. \<lparr>key = k, val = get_property ps k, divider = None\<rparr>) ks"

lemma lt_toShow: "js_lt (Num (int i)) (Math_min (Num (int n)) (limit_num M)) \<longleftrightarrow> i < spec_shown n M"
  by (cases M) auto

lemma ge_toShow: "js_ge (Num (int i)) (Math_min (Num (int n)) (limit_num M)) \<longleftrightarrow> \<not> i < spec_shown n M"
  by (cases M) auto

lemma marker_toShow:
  "(if js_lt (Math_min (Num (int n)) (limit_num M)) (Num (int n))
    then cs @ [truncationEntry (js_sub (Num (int n)) (Math_min (Num (int n)) (limit_num M)))]
    else cs) = cs @ spec_marker n M"
  by (cases M) auto

lemma length_indexed_from [simp]: "length (indexed_from i xs) = length xs"
  by (induction xs arbitrary: i) auto

lemma array_loop_eq:
  "array_loop v (limit_num M) i acc =
     acc @ take (spec_shown (length v) M - i) (indexed_from i (drop i v))"
proof (induction v "limit_num M" i acc rule: array_loop.induct)
  case (1 v i entries)
  show ?case
  proof (cases "i < spec_shown (length v) M")
    case True
    then have "i < length v" by (cases M) auto
    then have d: "drop i v = v ! i # drop (Suc i) v" by (simp add: Cons_nth_drop_Suc)
    from True obtain k where k: "spec_shown (length v) M - i = Suc k" "spec_shown (length v) M - Suc i = k"
      by (metis Suc_diff_Suc)
    from True 1 \<open>i < length v\<close> show ?thesis
      by (subst array_loop.simps) (simp add: lt_toShow d k array_get_def)
  next
    case False
    then show ?thesis by (subst array_loop.simps) (simp add: lt_toShow)
  qed
qed

lemma set_loop_eq:
  "set_loop items (Math_min (Num (int n)) (limit_num M)) i acc =
     acc @ take (spec_shown n M - i) (indexed_from i items)"
proof (induction items arbitrary: i acc)
  case Nil
  then show ?case by simp
next
  case (Cons x xs)
  show ?case
  proof (cases "i < spec_shown n M")
    case True
    then obtain k where k: "spec_shown n M - i = Suc k" "spec_shown n M - Suc i = k"
      by (metis Suc_diff_Suc)
    with True Cons show ?thesis by (simp add: ge_toShow)
  next
    case False
    then show ?thesis by (simp add: ge_toShow)
  qed
qed

lemma map_loop_eq:
  "map_loop items (Math_min (Num (int n)) (limit_num M)) dv i acc =
     acc @ take (spec_shown n M - i) (map_entries dv items)"
proof (induction items arbitrary: i acc)
  case Nil
  then show ?case by (simp add: map_entries_def)
next
  case (Cons x xs)
  obtain k v where x: "x = (k, v)" by (cases x)
  show ?case
  proof (cases "i < spec_shown n M")
    case True
    then obtain j where j: "spec_shown n M - i = Suc j" "spec_shown n M - Suc i = j"
      by (metis Suc_diff_Suc)
    with True Cons show ?thesis by (simp add: ge_toShow x map_entries_def)
  next
    case False
    then show ?thesis by (simp add: ge_toShow x)
  qed
qed

lemma object_loop_eq:
  "object_loop v ks (limit_num M) i acc =
     acc @ take (spec_shown (length ks) M - i) (property_entries v (drop i ks))"
proof (induction v ks "limit_num M" i acc rule: object_loop.induct)
  case (1 v ks i entries)
  show ?case
  proof (cases "i < spec_shown (length ks) M")
    case True
    then have "i < length ks" by (cases M) auto
    then have d: "drop i ks = ks ! i # drop (Suc i) ks" by (simp add: Cons_nth_drop_Suc)
    from True obtain k where k: "spec_shown (length ks) M - i = Suc k" "spec_shown (length ks) M - Suc i = k"
      by (metis Suc_diff_Suc)
    from True 1 \<open>i < length ks\<close> show ?thesis
      by (subst object_loop.simps) (simp add: lt_toShow d k keys_get_def property_entries_def)
  next
    case False
    then show ?thesis by (subst object_loop.simps) (simp add: lt_toShow)
  qed
qed

lemma renderValue_array:
  assumes "array_maxItems (array_opts opts) = limit_num M"
  shows "renderValue env (VArray xs) opts =
    Inr \<lparr>header = colorize env
            (if showLength (array_opts opts)
             then str ''Array('' @ String_number (Num (int (length xs))) @ str '')''
             else str ''Array'') (c_array (colors opts)),
         children = Some (spec_clamp M (indexed_from 0 xs))\<rparr>"
  using assms
  by (simp add: renderValue_def handlers_def Let_def array_loop_eq marker_toShow spec_clamp_def)

lemma renderValue_set:
  assumes "set_maxItems (set_opts opts) = limit_num M"
  shows "renderValue env (VSet xs) opts =
    Inr \<lparr>header = colorize env
            (if set_showSize (set_opts opts)
             then str ''Set('' @ String_number (Num (int (length xs))) @ str '')''
             else str ''Set'') (c_set (colors opts)),
         children = Some (spec_clamp M (indexed_from 0 xs))\<rparr>"
  using assms
  by (simp add: renderValue_def handlers_def Let_def set_loop_eq marker_toShow spec_clamp_def)

lemma renderValue_map:
  assumes "map_maxItems (map_opts opts) = limit_num M"
  shows "renderValue env (VMap ps) opts =
    Inr \<lparr>header = colorize env
            (if map_showSize (map_opts opts)
             then str ''Map('' @ String_number (Num (int (length ps))) @ str '')''
             else str ''Map'') (c_map (colors opts)),
         children = Some (spec_clamp M (map_entries (map_divider (map_opts opts)) ps))\<rparr>"
  using assms
  by (simp add: renderValue_def handlers_def Let_def map_loop_eq marker_toShow spec_clamp_def
      map_entries_def)

lemma renderValue_object:
  assumes "maxKeys (object_opts opts) = limit_num M"
  shows "renderValue env (VObject ps) opts =
    Inr \<lparr>header = colorize env (str ''Object{}'') (c_object (colors opts)),
         children = Some (spec_clamp M (property_entries ps
           (if sortKeys (object_opts opts) then sort (Object_keys ps) else Object_keys ps)))\<rparr>"
  using assms
  by (simp add: renderValue_def handlers_def Let_def object_loop_eq marker_toShow spec_clamp_def
      property_entries_def)

lemma renderValue_instance:
  assumes "maxKeys (object_opts opts) = limit_num M"
  shows "renderValue env (VInstance ctor ps) opts =
    Inr \<lparr>header = colorize env ((if ctor = [] then str ''Object'' else ctor) @ str ''{}'')
            (c_instance (colors opts)),
         children = Some (spec_clamp M (property_entries ps (Object_keys ps)))\<rparr>"
  using assms
  by (simp add: renderValue_def handlers_def Let_def object_loop_eq marker_toShow spec_clamp_def
      property_entries_def)

text \<open>
  C4. For every container (array, set, map, plain object, class instance) of true size
  \<open>S\<close> whose configured maximum \<open>M\<close> is a non-negative integer or unbounded, the
  classifier produces exactly \<open>min(S, M)\<close> regular children, in order, and appends a
  single truncation marker carrying the count \<open>S - M\<close> if and only if \<open>M < S\<close>; there is
  never more than one marker.
\<close>

theorem clamp_children:
  assumes "array_maxItems (array_opts opts) = limit_num Ma"
    and "set_maxItems (set_opts opts) = limit_num Ms"
    and "map_maxItems (map_opts opts) = limit_num Mm"
    and "maxKeys (object_opts opts) = limit_num Mk"
  shows
    "(\<exists>h. renderValue env (VArray xs) opts =
        Inr \<lparr>header = h, children = Some (spec_clamp Ma (indexed_from 0 xs))\<rparr>) \<and>
     (\<exists>h. renderValue env (VSet ys) opts =
        Inr \<lparr>header = h, children = Some (spec_clamp Ms (indexed_from 0 ys))\<rparr>) \<and>
     (\<exists>h. renderValue env (VMap ps) opts =
        Inr \<lparr>header = h,
             children = Some (spec_clamp Mm (map_entries (map_divider (map_opts opts)) ps))\<rparr>) \<and>
     (\<exists>h. renderValue env (VObject qs) opts =
        Inr \<lparr>header = h,
             children = Some (spec_clamp Mk (property_entries qs
               (if sortKeys (object_opts opts) then sort (Object_keys qs)
                else Object_keys qs)))\<rparr>) \<and>
     (\<exists>h. renderValue env (VInstance ctor rs) opts =
        Inr \<lparr>header = h, children = Some (spec_clamp Mk (property_entries rs (Object_keys rs)))\<rparr>)"
  using renderValue_array [OF assms(1)] renderValue_set [OF assms(2)]
    renderValue_map [OF assms(3)] renderValue_object [OF assms(4)]
    renderValue_instance [OF assms(4)]
  by simp

text \<open>Scenario B: seven elements, \<open>maxItems = 3\<close>.\<close>

definition seven :: "jsval list" where
  "seven = map (\<lambda>i. VNumber (Num i)) [1, 2, 3, 4, 5, 6, 7]"

definition max3_options :: ObjectTreeOptions where
  "max3_options =
     no_options
       \<lparr>o_array := Some \<lparr>array_maxItems_opt = Some (Num 3), showLength_opt = None\<rparr>,
        o_object := Some \<lparr>maxKeys_opt = Some (Num 1), sortKeys_opt = None\<rparr>\<rparr>"

theorem clamp_children_witness:
  "array_maxItems (array_opts (resolveOptions max3_options)) = limit_num (Bounded 3) \<and>
   set_maxItems (set_opts (resolveOptions max3_options)) = limit_num Unbounded \<and>
   map_maxItems (map_opts (resolveOptions max3_options)) = limit_num Unbounded \<and>
   maxKeys (object_opts (resolveOptions max3_options)) = limit_num (Bounded 1) \<and>
   (\<exists>h. renderValue plain_env (VArray seven) (resolveOptions max3_options) =
      Inr \<lparr>header = h,
           children = Some
             [\<lparr>key = str ''0'', val = VNumber (Num 1), divider = None\<rparr>,
              \<lparr>key = str ''1'', val = VNumber (Num 2), divider = None\<rparr>,
              \<lparr>key = str ''2'', val = VNumber (Num 3), divider = None\<rparr>,
              \<lparr>key = ellipsis, val = VString (str ''+4 more''), divider = None\<rparr>]\<rparr>) \<and>
   (\<exists>h. renderValue plain_env (VSet [VNull, VUndefined]) (resolveOptions max3_options) =
      Inr \<lparr>header = h,
           children = Some
             [\<lparr>key = str ''0'', val = VNull, divider = None\<rparr>,
              \<lparr>key = str ''1'', val = VUndefined, divider = None\<rparr>]\<rparr>) \<and>
   (\<exists>h. renderValue plain_env (VObject [(str ''b'', VNull), (str ''a'', VUndefined)])
          (resolveOptions max3_options) =
      Inr \<lparr>header = h,
           children = Some
             [\<lparr>key = str ''a'', val = VUndefined, divider = None\<rparr>,
              \<lparr>key = ellipsis, val = VString (str ''+1 more''), divider = None\<rparr>]\<rparr>)"
proof -
  let ?o = "resolveOptions max3_options"
  have h: "array_maxItems (array_opts ?o) = limit_num (Bounded 3)"
    "set_maxItems (set_opts ?o) = limit_num Unbounded"
    "map_maxItems (map_opts ?o) = limit_num Unbounded"
    "maxKeys (object_opts ?o) = limit_num (Bounded 1)"
    "sortKeys (object_opts ?o)"
    by (simp_all add: max3_options_def resolveOptions_def defaults_def no_options_def)
  have a: "spec_clamp (Bounded 3) (indexed_from 0 seven) =
      [\<lparr>key = str ''0'', val = VNumber (Num 1), divider = None\<rparr>,
       \<lparr>key = str ''1'', val = VNumber (Num 2), divider = None\<rparr>,
       \<lparr>key = str ''2'', val = VNumber (Num 3), divider = None\<rparr>,
       \<lparr>key = ellipsis, val = VString (str ''+4 more''), divider = None\<rparr>]"
    by (simp add: spec_clamp_def seven_def truncationEntry_def int_to_string_def digits.simps
        str_def)
  have s: "spec_clamp Unbounded (indexed_from 0 [VNull, VUndefined]) =
      [\<lparr>key = str ''0'', val = VNull, divider = None\<rparr>,
       \<lparr>key = str ''1'', val = VUndefined, divider = None\<rparr>]"
    by (simp add: spec_clamp_def int_to_string_def digits.simps str_def)
  have ob: "spec_clamp (Bounded 1)
       (property_entries [(str ''b'', VNull), (str ''a'', VUndefined)]
          (sort (Object_keys [(str ''b'', VNull), (str ''a'', VUndefined)]))) =
      [\<lparr>key = str ''a'', val = VUndefined, divider = None\<rparr>,
       \<lparr>key = ellipsis, val = VString (str ''+1 more''), divider = None\<rparr>]"
    by (simp add: spec_clamp_def property_entries_def Object_keys_def get_property_def
        truncationEntry_def int_to_string_def digits.simps str_def)
  show ?thesis
    using clamp_children [OF h(1-4), where env = plain_env and xs = seven
        and ys = "[VNull, VUndefined]" and qs = "[(str ''b'', VNull), (str ''a'', VUndefined)]"]
    by (simp only: h a s ob simp_thms if_True)
qed

section \<open>Evaluation\<close>

lemmas eval_defs =
  renderValue_def handlers_def colorize_def resolveOptions_def defaults_def no_options_def
  object_loop.simps array_loop.simps keys_get_def array_get_def get_property_def
  Object_keys_def str_def walk.simps render_def ObjectTree_render_def buildPrefix_def
  connector_def int_to_string_def digits.simps startsWith_def js_gt_def truncationEntry_def
  ellipsis_def arrow_def

section \<open>Scenario A\<close>

text \<open>
  C3. The object \<open>{a: 1, b: 2}\<close>, rendered with all-default options (so \<open>showRoot\<close> is
  false) in an environment without color support (\<open>colorize\<close> is the identity), gives
  exactly the two lines \<open>tee a: 1\<close> and \<open>ell b: 2\<close>, in that order.
\<close>

theorem scenario_A:
  "chalk_level env = 0 \<Longrightarrow>
   ObjectTree_render env no_options
     (VObject [(str ''a'', VNumber (Num 1)), (str ''b'', VNumber (Num 2))]) =
   Inr [[0x251C, 0x2500] @ str '' a: 1'', [0x2514, 0x2500] @ str '' b: 2'']"
  by (simp add: eval_defs)

theorem scenario_A_witness:
  "chalk_level plain_env = 0 \<and>
   ObjectTree_render plain_env no_options
     (VObject [(str ''a'', VNumber (Num 1)), (str ''b'', VNumber (Num 2))]) =
   Inr [[0x251C, 0x2500] @ str '' a: 1'', [0x2514, 0x2500] @ str '' b: 2'']"
  using scenario_A [of plain_env] by (simp add: plain_env_def)

section \<open>String truncation\<close>

text \<open>The specification's wrapping of a string body per the quotes setting.\<close>

fun spec_quote :: "Quotes \<Rightarrow> jsstring \<Rightarrow> jsstring" where
  "spec_quote Q_none body = body"
| "spec_quote Q_single body = str [CHR 0x27] @ body @ str [CHR 0x27]"
| "spec_quote Q_double body = str [CHR 0x22] @ body @ str [CHR 0x22]"

lemma slice0_truncate:
  "1 \<le> m \<Longrightarrow> m < length s \<Longrightarrow> slice0 s (js_sub (Num (int m)) (Num 1)) = take (m - 1) s"
  by (simp add: min_def nat_diff_distrib')

text \<open>
  Where \<open>maxLength\<close> is a positive integer \<open>m\<close> or unbounded, a string is truncated as
  intended: when its length exceeds \<open>m\<close> the body is the first \<open>m - 1\<close> source characters
  followed by the one ellipsis character, otherwise the string is unchanged; the body
  is then wrapped per the quotes setting.
\<close>

lemma string_truncation:
  assumes "maxLength (string_opts opts) = limit_num M" and "M \<noteq> Bounded 0"
  shows "renderValue env (VString s) opts =
      Inr \<lparr>header = colorize env
              (spec_quote (quotes (string_opts opts))
                 (case M of
                    Bounded m \<Rightarrow> if m < length s then take (m - 1) s @ ellipsis else s
                  | Unbounded \<Rightarrow> s))
              (c_string (colors opts)),
           children = None\<rparr>"
proof -
  have q: "spec_quote q b =
      (if q = Q_single then str [CHR 0x27] @ b @ str [CHR 0x27]
       else if q = Q_double then str [CHR 0x22] @ b @ str [CHR 0x22] else b)" for q b
    by (cases q) simp_all
  show ?thesis
  proof (cases M)
    case (Bounded m)
    with assms have "1 \<le> m" by simp
    with assms Bounded q show ?thesis
      by (simp add: renderValue_def handlers_def Let_def js_gt_def slice0_truncate
          del: slice0.simps js_sub.simps)
  next
    case Unbounded
    with assms q show ?thesis
      by (simp add: renderValue_def handlers_def Let_def js_gt_def)
  qed
qed

text \<open>
  C5. When a string is longer than \<open>maxLength\<close>, its rendered body is meant to be the
  first \<open>maxLength - 1\<close> source characters followed by one ellipsis character. With
  \<open>maxLength = 0\<close> the code renders \<open>abc\<close> as \<open>ab\<close> and the ellipsis, in double quotes:
  \<open>slice(0, maxLength - 1)\<close> is then \<open>slice(0, -1)\<close>, which counts from the end of the
  string and drops its last character only. (With \<open>maxLength = 1\<close> the body is the
  ellipsis alone.)
\<close>

theorem string_maxLength_zero:
  "renderValue plain_env (VString (str ''abc''))
     (resolveOptions
        (no_options\<lparr>o_string := Some \<lparr>maxLength_opt = Some (Num 0), quotes_opt = None\<rparr>\<rparr>)) =
     Inr \<lparr>header = str [CHR 0x22] @ str ''ab'' @ ellipsis @ str [CHR 0x22], children = None\<rparr> \<and>
   renderValue plain_env (VString (str ''abc''))
     (resolveOptions
        (no_options\<lparr>o_string := Some \<lparr>maxLength_opt = Some (Num 1), quotes_opt = None\<rparr>\<rparr>)) =
     Inr \<lparr>header = str [CHR 0x22] @ ellipsis @ str [CHR 0x22], children = None\<rparr>"
  by (simp add: eval_defs plain_env_def)

section \<open>Option resolution\<close>

lemma resolve_top:
  "maxDepth (resolveOptions opts) = nullish (o_maxDepth opts) PosInf"
  "showRoot (resolveOptions opts) = nullish (o_showRoot opts) False"
  "connectorColor (resolveOptions opts) = nullish (o_connectorColor opts) ''gray''"
  "indent (resolveOptions opts) = nullish (o_indent opts) (str ''  '')"
  by (simp_all add: resolveOptions_def defaults_def)

lemma resolve_string:
  "maxLength (string_opts (resolveOptions opts)) =
     nullish (Option.bind (o_string opts) maxLength_opt) (Num 80)"
  "quotes (string_opts (resolveOptions opts)) =
     nullish (Option.bind (o_string opts) quotes_opt) Q_double"
  by (cases "o_string opts"; simp add: resolveOptions_def defaults_def)+

lemma resolve_array:
  "array_maxItems (array_opts (resolveOptions opts)) =
     nullish (Option.bind (o_array opts) array_maxItems_opt) PosInf"
  "showLength (array_opts (resolveOptions opts)) =
     nullish (Option.bind (o_array opts) showLength_opt) True"
  by (cases "o_array opts"; simp add: resolveOptions_def defaults_def)+

lemma resolve_object:
  "maxKeys (object_opts (resolveOptions opts)) =
     nullish (Option.bind (o_object opts) maxKeys_opt) PosInf"
  "sortKeys (object_opts (resolveOptions opts)) =
     nullish (Option.bind (o_object opts) sortKeys_opt) True"
  by (cases "o_object opts"; simp add: resolveOptions_def defaults_def)+

lemma resolve_set:
  "set_maxItems (set_opts (resolveOptions opts)) =
     nullish (Option.bind (o_set opts) set_maxItems_opt) PosInf"
  "set_showSize (set_opts (resolveOptions opts)) =
     nullish (Option.bind (o_set opts) set_showSize_opt) True"
  by (cases "o_set opts"; simp add: resolveOptions_def defaults_def)+

lemma resolve_map:
  "map_maxItems (map_opts (resolveOptions opts)) =
     nullish (Option.bind (o_map opts) map_maxItems_opt) PosInf"
  "map_showSize (map_opts (resolveOptions opts)) =
     nullish (Option.bind (o_map opts) map_showSize_opt) True"
  "map_divider (map_opts (resolveOptions opts)) =
     nullish (Option.bind (o_map opts) map_divider_opt) (str '' '' @ arrow @ str '' '')"
  by (cases "o_map opts"; simp add: resolveOptions_def defaults_def)+

lemma resolve_date:
  "format (date_opts (resolveOptions opts)) =
     nullish (Option.bind (o_date opts) format_opt) F_none"
  by (cases "o_date opts"; simp add: resolveOptions_def defaults_def)

lemma resolve_chars:
  "tee (chars (resolveOptions opts)) = nullish (Option.bind (o_chars opts) tee_opt) [0x251C, 0x2500]"
  "ell (chars (resolveOptions opts)) = nullish (Option.bind (o_chars opts) ell_opt) [0x2514, 0x2500]"
  "pipe (chars (resolveOptions opts)) = nullish (Option.bind (o_chars opts) pipe_opt) [0x2502]"
  by (cases "o_chars opts"; simp add: resolveOptions_def defaults_def)+

lemma resolve_colors:
  "c_string (colors (resolveOptions opts)) = nullish (Option.bind (o_colors opts) c_string_opt) ''green''"
  "c_number (colors (resolveOptions opts)) = nullish (Option.bind (o_colors opts) c_number_opt) ''cyan''"
  "c_boolean (colors (resolveOptions opts)) = nullish (Option.bind (o_colors opts) c_boolean_opt) ''yellow''"
  "c_null (colors (resolveOptions opts)) = nullish (Option.bind (o_colors opts) c_null_opt) ''red''"
  "c_undefined (colors (resolveOptions opts)) = nullish (Option.bind (o_colors opts) c_undefined_opt) ''gray''"
  "c_bigint (colors (resolveOptions opts)) = nullish (Option.bind (o_colors opts) c_bigint_opt) ''cyan''"
  "c_symbol (colors (resolveOptions opts)) = nullish (Option.bind (o_colors opts) c_symbol_opt) ''magenta''"
  "c_function (colors (resolveOptions opts)) = nullish (Option.bind (o_colors opts) c_function_opt) ''gray''"
  "c_class (colors (resolveOptions opts)) = nullish (Option.bind (o_colors opts) c_class_opt) ''cyan''"
  "c_date (colors (resolveOptions opts)) = nullish (Option.bind (o_colors opts) c_date_opt) ''magenta''"
  "c_regexp (colors (resolveOptions opts)) = nullish (Option.bind (o_colors opts) c_regexp_opt) ''red''"
  "c_array (colors (resolveOptions opts)) = nullish (Option.bind (o_colors opts) c_array_opt) ''yellow''"
  "c_object (colors (resolveOptions opts)) = nullish (Option.bind (o_colors opts) c_object_opt) ''cyan''"
  "c_set (colors (resolveOptions opts)) = nullish (Option.bind (o_colors opts) c_set_opt) ''green''"
  "c_map (colors (resolveOptions opts)) = nullish (Option.bind (o_colors opts) c_map_opt) ''blue''"
  "c_instance (colors (resolveOptions opts)) = nullish (Option.bind (o_colors opts) c_instance_opt) ''cyan''"
  by (cases "o_colors opts"; simp add: resolveOptions_def defaults_def)+

text \<open>
  C6. Option resolution merges each section on its own over the built-in defaults:
  every subfield is the user's value when the user supplies the section and the
  subfield, and the built-in default otherwise, whatever the sibling subfields are
  (supplying only \<open>string.maxLength\<close> keeps \<open>quotes = double\<close>). The defaults are:
  \<open>maxDepth\<close>, \<open>maxItems\<close>, \<open>maxKeys\<close> unbounded, \<open>showRoot\<close> false, \<open>sortKeys\<close> true,
  \<open>showLength\<close> and \<open>showSize\<close> true, date format \<open>none\<close>, string quotes \<open>double\<close>
  with \<open>maxLength\<close> 80, map divider \<open>space arrow space\<close>.
\<close>

theorem resolveOptions_sections:
  "maxDepth (resolveOptions opts) = nullish (o_maxDepth opts) PosInf \<and>
   showRoot (resolveOptions opts) = nullish (o_showRoot opts) False \<and>
   maxLength (string_opts (resolveOptions opts)) =
     nullish (Option.bind (o_string opts) maxLength_opt) (Num 80) \<and>
   quotes (string_opts (resolveOptions opts)) =
     nullish (Option.bind (o_string opts) quotes_opt) Q_double \<and>
   array_maxItems (array_opts (resolveOptions opts)) =
     nullish (Option.bind (o_array opts) array_maxItems_opt) PosInf \<and>
   showLength (array_opts (resolveOptions opts)) =
     nullish (Option.bind (o_array opts) showLength_opt) True \<and>
   maxKeys (object_opts (resolveOptions opts)) =
     nullish (Option.bind (o_object opts) maxKeys_opt) PosInf \<and>
   sortKeys (object_opts (resolveOptions opts)) =
     nullish (Option.bind (o_object opts) sortKeys_opt) True \<and>
   set_maxItems (set_opts (resolveOptions opts)) =
     nullish (Option.bind (o_set opts) set_maxItems_opt) PosInf \<and>
   set_showSize (set_opts (resolveOptions opts)) =
     nullish (Option.bind (o_set opts) set_showSize_opt) True \<and>
   map_maxItems (map_opts (resolveOptions opts)) =
     nullish (Option.bind (o_map opts) map_maxItems_opt) PosInf \<and>
   map_showSize (map_opts (resolveOptions opts)) =
     nullish (Option.bind (o_map opts) map_showSize_opt) True \<and>
   map_divider (map_opts (resolveOptions opts)) =
     nullish (Option.bind (o_map opts) map_divider_opt) (str '' '' @ arrow @ str '' '') \<and>
   format (date_opts (resolveOptions opts)) =
     nullish (Option.bind (o_date opts) format_opt) F_none \<and>
   tee (chars (resolveOptions opts)) =
     nullish (Option.bind (o_chars opts) tee_opt) [0x251C, 0x2500] \<and>
   ell (chars (resolveOptions opts)) =
     nullish (Option.bind (o_chars opts) ell_opt) [0x2514, 0x2500] \<and>
   pipe (chars (resolveOptions opts)) = nullish (Option.bind (o_chars opts) pipe_opt) [0x2502] \<and>
   c_string (colors (resolveOptions opts)) =
     nullish (Option.bind (o_colors opts) c_string_opt) ''green'' \<and>
   c_number (colors (resolveOptions opts)) =
     nullish (Option.bind (o_colors opts) c_number_opt) ''cyan'' \<and>
   c_boolean (colors (resolveOptions opts)) =
     nullish (Option.bind (o_colors opts) c_boolean_opt) ''yellow'' \<and>
   c_null (colors (resolveOptions opts)) =
     nullish (Option.bind (o_colors opts) c_null_opt) ''red'' \<and>
   c_undefined (colors (resolveOptions opts)) =
     nullish (Option.bind (o_colors opts) c_undefined_opt) ''gray'' \<and>
   c_bigint (colors (resolveOptions opts)) =
     nullish (Option.bind (o_colors opts) c_bigint_opt) ''cyan'' \<and>
   c_symbol (colors (resolveOptions opts)) =
     nullish (Option.bind (o_colors opts) c_symbol_opt) ''magenta'' \<and>
   c_function (colors (resolveOptions opts)) =
     nullish (Option.bind (o_colors opts) c_function_opt) ''gray'' \<and>
   c_class (colors (resolveOptions opts)) =
     nullish (Option.bind (o_colors opts) c_class_opt) ''cyan'' \<and>
   c_date (colors (resolveOptions opts)) =
     nullish (Option.bind (o_colors opts) c_date_opt) ''magenta'' \<and>
   c_regexp (colors (resolveOptions opts)) =
     nullish (Option.bind (o_colors opts) c_regexp_opt) ''red'' \<and>
   c_array (colors (resolveOptions opts)) =
     nullish (Option.bind (o_colors opts) c_array_opt) ''yellow'' \<and>
   c_object (colors (resolveOptions opts)) =
     nullish (Option.bind (o_colors opts) c_object_opt) ''cyan'' \<and>
   c_set (colors (resolveOptions opts)) =
     nullish (Option.bind (o_colors opts) c_set_opt) ''green'' \<and>
   c_map (colors (resolveOptions opts)) =
     nullish (Option.bind (o_colors opts) c_map_opt) ''blue'' \<and>
   c_instance (colors (resolveOptions opts)) =
     nullish (Option.bind (o_colors opts) c_instance_opt) ''cyan'' \<and>
   string_opts
     (resolveOptions
        (no_options\<lparr>o_string := Some \<lparr>maxLength_opt = Some n, quotes_opt = None\<rparr>\<rparr>)) =
     \<lparr>maxLength = n, quotes = Q_double\<rparr>"
  by (simp only: resolve_top resolve_string resolve_array resolve_object resolve_set resolve_map
      resolve_date resolve_chars resolve_colors simp_thms)
    (simp add: resolveOptions_def defaults_def no_options_def)

section \<open>Key order of plain objects\<close>

text \<open>
  C7. For every plain object (with \<open>maxKeys\<close> a non-negative integer or unbounded):
  when \<open>sortKeys\<close> is enabled the keys of its regular children appear in ascending
  lexicographic order (they are the first keys of the sorted key list), and when it
  is disabled they appear in the original enumeration order.
\<close>

theorem object_key_order:
  assumes "maxKeys (object_opts opts) = limit_num M"
  shows "\<exists>h regular.
      renderValue env (VObject ps) opts =
        Inr \<lparr>header = h, children = Some (regular @ spec_marker (length ps) M)\<rparr> \<and>
      length regular = spec_shown (length ps) M \<and>
      (if sortKeys (object_opts opts)
       then sorted (map key regular) \<and>
            map key regular = take (length regular) (sort (Object_keys ps))
       else map key regular = take (length regular) (Object_keys ps))"
proof -
  let ?ks = "if sortKeys (object_opts opts) then sort (Object_keys ps) else Object_keys ps"
  let ?n = "spec_shown (length ps) M"
  let ?regular = "take ?n (property_entries ps ?ks)"
  have len: "length ?ks = length ps" by (simp add: Object_keys_def)
  have n: "?n \<le> length ps" by (cases M) auto
  have keys: "map key ?regular = take ?n ?ks"
    by (simp add: property_entries_def take_map comp_def)
  have "renderValue env (VObject ps) opts =
      Inr \<lparr>header = colorize env (str ''Object{}'') (c_object (colors opts)),
           children = Some (?regular @ spec_marker (length ps) M)\<rparr>"
    using renderValue_object [OF assms, of env ps] len
    by (simp add: spec_clamp_def property_entries_def)
  moreover have "length ?regular = ?n"
    using n len by (simp add: property_entries_def)
  moreover have "sorted (take ?n (sort (Object_keys ps)))"
    by (simp add: sorted_wrt_take)
  ultimately show ?thesis
    using keys by (intro exI [of _ "colorize env (str ''Object{}'') (c_object (colors opts))"]
        exI [of _ ?regular]) (simp split: if_splits)
qed

text \<open>The options \<open>{object: {sortKeys: false}}\<close>.\<close>

definition unsorted_options :: ObjectTreeOptions where
  "unsorted_options =
     no_options\<lparr>o_object := Some \<lparr>maxKeys_opt = None, sortKeys_opt = Some False\<rparr>\<rparr>"

theorem object_key_order_witness:
  "maxKeys (object_opts (resolveOptions max3_options)) = limit_num (Bounded 1) \<and>
   sortKeys (object_opts (resolveOptions max3_options)) \<and>
   (\<exists>h regular.
      renderValue plain_env (VObject [(str ''b'', VNull), (str ''a'', VUndefined)])
        (resolveOptions max3_options) =
        Inr \<lparr>header = h, children = Some (regular @ [truncationEntry (Num 1)])\<rparr> \<and>
      map key regular = [str ''a'']) \<and>
   maxKeys (object_opts (resolveOptions unsorted_options)) = limit_num Unbounded \<and>
   \<not> sortKeys (object_opts (resolveOptions unsorted_options)) \<and>
   (\<exists>h regular.
      renderValue plain_env (VObject [(str ''b'', VNull), (str ''a'', VUndefined)])
        (resolveOptions unsorted_options) =
        Inr \<lparr>header = h, children = Some regular\<rparr> \<and>
      map key regular = [str ''b'', str ''a''])"
proof -
  let ?o = "resolveOptions max3_options"
  let ?u = "resolveOptions unsorted_options"
  let ?ps = "[(str ''b'', VNull), (str ''a'', VUndefined)]"
  have h: "maxKeys (object_opts ?o) = limit_num (Bounded 1)"
    and s: "sortKeys (object_opts ?o)"
    by (simp_all add: max3_options_def resolveOptions_def defaults_def no_options_def)
  have h': "maxKeys (object_opts ?u) = limit_num Unbounded"
    and s': "\<not> sortKeys (object_opts ?u)"
    by (simp_all add: unsorted_options_def resolveOptions_def defaults_def no_options_def)
  from object_key_order [OF h, of plain_env ?ps] s
  obtain hd regular where
    r: "renderValue plain_env (VObject ?ps) ?o =
          Inr \<lparr>header = hd, children = Some (regular @ spec_marker (length ?ps) (Bounded 1))\<rparr>"
    and l: "length regular = spec_shown (length ?ps) (Bounded 1)"
    and k: "map key regular = take (length regular) (sort (Object_keys ?ps))"
    by auto
  from k l have "map key regular = [str ''a'']"
    by (simp add: Object_keys_def str_def)
  with r have sorted_case: "\<exists>h regular.
      renderValue plain_env (VObject ?ps) ?o =
        Inr \<lparr>header = h, children = Some (regular @ [truncationEntry (Num 1)])\<rparr> \<and>
      map key regular = [str ''a'']" by simp
  from object_key_order [OF h', of plain_env ?ps] s'
  obtain hd' regular' where
    r': "renderValue plain_env (VObject ?ps) ?u =
          Inr \<lparr>header = hd', children = Some (regular' @ spec_marker (length ?ps) Unbounded)\<rparr>"
    and l': "length regular' = spec_shown (length ?ps) Unbounded"
    and k': "map key regular' = take (length regular') (Object_keys ?ps)"
    by auto
  from k' l' have "map key regular' = [str ''b'', str ''a'']"
    by (simp add: Object_keys_def)
  with r' have unsorted_case: "\<exists>h regular.
      renderValue plain_env (VObject ?ps) ?u = Inr \<lparr>header = h, children = Some regular\<rparr> \<and>
      map key regular = [str ''b'', str ''a'']" by simp
  from h s sorted_case h' s' unsorted_case show ?thesis by (intro conjI)
qed

section \<open>Invalid dates\<close>

text \<open>
  C8. Classification is meant to be total: every value is given a node and neither
  classification nor rendering throws. The invalid date breaks this under the
  \<open>iso\<close> date format: \<open>toISOString\<close> throws a \<open>RangeError\<close>, which leaves \<open>render\<close>.
\<close>

theorem invalid_date_iso:
  "ObjectTree_render env (no_options\<lparr>o_date := Some \<lparr>format_opt = Some F_iso\<rparr>\<rparr>) (VDate None) =
     Inl RangeError"
  by (simp add: eval_defs)

text \<open>It is the only value \<open>renderValue\<close> fails on.\<close>

lemma renderValue_Inl_iff:
  "renderValue env v opts = Inl e \<longleftrightarrow> v = VDate None \<and> format (date_opts opts) = F_iso"
proof (cases v)
  case (VDate t)
  then show ?thesis
    by (cases t; cases e) (auto simp: renderValue_def handlers_def Let_def)
next
  case (VFunction n src)
  then show ?thesis by (auto simp: renderValue_def handlers_def Let_def)
qed (simp_all add: renderValue_def handlers_def Let_def)

section \<open>The walk\<close>

lemma walk_omitted:
  "js_gt (Num (int depth)) (maxDepth opts) \<Longrightarrow>
   walk env opts v lines levels depth keyLabel isLast dv = Inr lines"
  by (simp add: walk.simps)

lemma walk_marker:
  "\<not> js_gt (Num (int depth)) (maxDepth opts) \<Longrightarrow> truncation_marker v = Some text \<Longrightarrow>
   walk env opts v lines levels depth keyLabel isLast dv =
     Inr (lines @ [buildPrefix env opts levels isLast @
                   (case keyLabel of Some k \<Rightarrow> k @ dv | None \<Rightarrow> []) @
                   (if chalk_level env > 0 then chalk env ''gray'' text else text)])"
  by (simp add: walk.simps Let_def)

lemma walk_children_omitted:
  "js_gt (Num (int depth)) (maxDepth opts) \<Longrightarrow>
   walk_children env opts cs i lastIndex lines childLevels depth = Inr lines"
  by (induction cs arbitrary: i) (simp_all add: walk_omitted)

lemma walk_append_both:
  "\<forall>acc. walk env opts v (acc @ lines) levels depth keyLabel isLast dv =
      map_sum id ((@) acc) (walk env opts v lines levels depth keyLabel isLast dv)"
  "\<forall>acc. walk_children env opts cs i lastIndex (acc @ lines') childLevels depth' =
      map_sum id ((@) acc) (walk_children env opts cs i lastIndex lines' childLevels depth')"
proof (induction env opts v lines levels depth keyLabel isLast dv
    and env opts cs i lastIndex lines' childLevels depth' rule: walk_walk_children.induct)
  case (1 env opts v lines levels depth keyLabel isLast dv)
  show ?case
  proof
    fix acc
    show "walk env opts v (acc @ lines) levels depth keyLabel isLast dv =
      map_sum id ((@) acc) (walk env opts v lines levels depth keyLabel isLast dv)"
    proof (cases "js_gt (Num (int depth)) (maxDepth opts)")
      case True
      then show ?thesis by (simp add: walk_omitted)
    next
      case deep: False
      show ?thesis
      proof (cases "truncation_marker v")
        case (Some marker)
        with deep show ?thesis by (simp add: walk_marker)
      next
        case None
        show ?thesis
        proof (cases "renderValue env v opts")
          case (Inl e)
          with deep None show ?thesis by (simp add: walk.simps)
        next
          case (Inr result)
          show ?thesis
          proof (cases "children result")
            case no: None
            with deep None Inr show ?thesis
              by (simp add: walk.simps Let_def split: option.splits)
          next
            case (Some cs)
            show ?thesis
            proof (cases "0 < length cs")
              case False
              with deep None Inr Some show ?thesis
                by (simp add: walk.simps Let_def split: option.splits)
            next
              case True
              let ?own = "\<lambda>l. case keyLabel of
                  Some k \<Rightarrow> l @ [buildPrefix env opts levels isLast @ k @ dv @ header result]
                | None \<Rightarrow>
                    if showRoot opts \<or> depth > 0
                    then l @ [buildPrefix env opts levels isLast @ header result] else l"
              have unfold: "walk env opts v l levels depth keyLabel isLast dv =
                  walk_children env opts cs 0 (length cs - 1) (?own l)
                    (if depth = 0 then levels else levels @ [isLast \<noteq> Some True]) (depth + 1)"
                for l
                using deep None Inr Some True by (simp add: walk.simps Let_def)
              have own: "?own (acc @ lines) = acc @ ?own lines"
                by (cases keyLabel) simp_all
              note ih = 1 [OF deep None Inr refl Some True, rule_format, of acc]
              show ?thesis
                by (simp only: unfold own ih)
            qed
          qed
        qed
      qed
    qed
  qed
next
  case (2 env opts i lastIndex lines childLevels depth)
  show ?case by simp
next
  case (3 env opts child rest i lastIndex lines childLevels depth)
  show ?case
  proof
    fix acc
    let ?w = "\<lambda>l. walk env opts (val child) l childLevels depth (Some (key child))
      (Some (i = lastIndex)) (case divider child of None \<Rightarrow> str '': '' | Some d \<Rightarrow> d)"
    have w: "?w (acc @ lines) = map_sum id ((@) acc) (?w lines)"
      using 3(1) by blast
    show "walk_children env opts (child # rest) i lastIndex (acc @ lines) childLevels depth =
      map_sum id ((@) acc)
        (walk_children env opts (child # rest) i lastIndex lines childLevels depth)"
    proof (cases "?w lines")
      case (Inl e)
      with w show ?thesis by simp
    next
      case (Inr out)
      with w 3(2) [OF Inr, rule_format, of acc] show ?thesis by simp
    qed
  qed
qed

lemma walk_append:
  "walk env opts v acc levels depth keyLabel isLast dv =
     map_sum id ((@) acc) (walk env opts v [] levels depth keyLabel isLast dv)"
  using walk_append_both(1) [of env opts v "[]" levels depth keyLabel isLast dv, rule_format, of acc]
  by (simp only: append_Nil2)

lemma walk_children_append:
  "walk_children env opts cs i lastIndex acc childLevels depth =
     map_sum id ((@) acc) (walk_children env opts cs i lastIndex [] childLevels depth)"
  using walk_append_both(2) [of env opts cs i lastIndex "[]" childLevels depth, rule_format, of acc]
  by (simp only: append_Nil2)

lemma walk_node:
  assumes "\<not> js_gt (Num (int depth)) (maxDepth opts)" "truncation_marker v = None"
    "renderValue env v opts = Inr result"
  shows "walk env opts v lines levels depth keyLabel isLast dv =
    (let lines1 = (case keyLabel of
                     Some k \<Rightarrow> lines @ [buildPrefix env opts levels isLast @ k @ dv @ header result]
                   | None \<Rightarrow>
                       if showRoot opts \<or> depth > 0
                       then lines @ [buildPrefix env opts levels isLast @ header result]
                       else lines)
     in case children result of
          None \<Rightarrow> Inr lines1
        | Some cs \<Rightarrow>
            if cs = [] then Inr lines1
            else walk_children env opts cs 0 (length cs - 1) lines1
                   (if depth = 0 then levels else levels @ [isLast \<noteq> Some True]) (depth + 1))"
  using assms by (simp add: walk.simps Let_def split: option.splits)

lemma walk_children_extends:
  assumes "walk_children env opts cs i lastIndex lines childLevels depth = Inr out"
  shows "\<exists>rest. out = lines @ rest"
proof -
  from assms have "map_sum id ((@) lines)
      (walk_children env opts cs i lastIndex [] childLevels depth) = Inr out"
    by (simp only: walk_children_append [symmetric])
  then show ?thesis
    by (cases "walk_children env opts cs i lastIndex [] childLevels depth") auto
qed

lemma walk_keyed_line:
  assumes "\<not> js_gt (Num (int depth)) (maxDepth opts)"
    and "walk env opts v lines levels depth (Some k) isLast dv = Inr out"
  shows "\<exists>text rest. out = lines @ [buildPrefix env opts levels isLast @ k @ dv @ text] @ rest"
proof (cases "truncation_marker v")
  case (Some marker)
  with assms have "out = lines @ [buildPrefix env opts levels isLast @ k @ dv @
      (if chalk_level env > 0 then chalk env ''gray'' marker else marker)] @ []"
    by (simp add: walk_marker)
  then show ?thesis by blast
next
  case None
  show ?thesis
  proof (cases "renderValue env v opts")
    case (Inl e)
    with assms None show ?thesis by (simp add: walk.simps)
  next
    case (Inr result)
    let ?own = "lines @ [buildPrefix env opts levels isLast @ k @ dv @ header result]"
    note w = walk_node [OF assms(1) None Inr, of lines levels "Some k" isLast dv]
    show ?thesis
    proof (cases "children result")
      case no: None
      with w assms(2) show ?thesis by auto
    next
      case (Some cs)
      show ?thesis
      proof (cases "cs = []")
        case True
        with w assms(2) Some show ?thesis by auto
      next
        case False
        with w assms(2) Some have "walk_children env opts cs 0 (length cs - 1) ?own
            (if depth = 0 then levels else levels @ [isLast \<noteq> Some True]) (depth + 1) = Inr out"
          by simp
        from walk_children_extends [OF this] show ?thesis by auto
      qed
    qed
  qed
qed

lemma walk_children_lines:
  assumes "\<not> js_gt (Num (int depth)) (maxDepth opts)"
    and "walk_children env opts cs i lastIndex lines childLevels depth = Inr out"
    and "c \<in> set cs"
  shows "\<exists>l text. buildPrefix env opts childLevels (Some l) @ key c @
            (case divider c of Some d \<Rightarrow> d | None \<Rightarrow> str '': '') @ text \<in> set out"
  using assms(2,3)
proof (induction cs arbitrary: i lines)
  case Nil
  then show ?case by simp
next
  case (Cons child rest)
  let ?dv = "\<lambda>c. case divider c of Some d \<Rightarrow> d | None \<Rightarrow> str '': ''"
  from Cons.prems(1) obtain mid where
    mid: "walk env opts (val child) lines childLevels depth (Some (key child))
            (Some (i = lastIndex)) (?dv child) = Inr mid"
    and rest: "walk_children env opts rest (i + 1) lastIndex mid childLevels depth = Inr out"
    by (auto split: sum.splits)
  show ?case
  proof (cases "c = child")
    case True
    from walk_keyed_line [OF assms(1) mid] obtain t r1 where
      "mid = lines @ [buildPrefix env opts childLevels (Some (i = lastIndex)) @ key child @
         ?dv child @ t] @ r1" by blast
    moreover from walk_children_extends [OF rest] obtain r2 where "out = mid @ r2" by blast
    ultimately have "buildPrefix env opts childLevels (Some (i = lastIndex)) @ key child @
         ?dv child @ t \<in> set out" by simp
    with True show ?thesis by blast
  next
    case False
    with Cons.prems(2) have "c \<in> set rest" by simp
    from Cons.IH [OF rest this] show ?thesis .
  qed
qed

lemma children_not_marker:
  assumes "renderValue env v opts = Inr r" "children r = Some cs"
  shows "truncation_marker v = None"
  using assms by (cases v) (auto simp: renderValue_def handlers_def Let_def)

section \<open>Depth of the root and of its children\<close>

text \<open>
  C2, as the code has it. For every root value with children, when \<open>showRoot\<close> is false
  the root emits no line of its own and adds no prefix level; the root is walked at
  depth 0 and its children at depth 1. A node is omitted exactly when its depth
  strictly exceeds \<open>maxDepth\<close>: a walk beyond the limit leaves the lines unchanged, and
  a keyed node within the limit emits its own line. Consequently, with \<open>showRoot\<close> false
  and \<open>maxDepth = 0\<close> the rendering has no lines, and with \<open>maxDepth\<close> at least 1 each
  direct child of the root emits its own line.
\<close>

theorem root_children_depth:
  assumes "renderValue env root opts = Inr r" and "children r = Some cs" and "cs \<noteq> []"
    and "\<not> showRoot opts"
  shows "(\<not> js_gt (Num 0) (maxDepth opts) \<longrightarrow>
            render env opts root = walk_children env opts cs 0 (length cs - 1) [] [] 1) \<and>
         (js_gt (Num (int depth)) (maxDepth opts) \<longrightarrow>
            walk env opts v lines levels depth keyLabel isLast dv = Inr lines) \<and>
         (\<not> js_gt (Num (int depth)) (maxDepth opts) \<longrightarrow>
          walk env opts v lines levels depth (Some k) isLast dv = Inr out \<longrightarrow>
            (\<exists>text rest.
               out = lines @ [buildPrefix env opts levels isLast @ k @ dv @ text] @ rest)) \<and>
         (maxDepth opts = Num 0 \<longrightarrow> render env opts root = Inr []) \<and>
         (\<not> js_gt (Num 1) (maxDepth opts) \<longrightarrow> render env opts root = Inr shown \<longrightarrow>
            (\<forall>c \<in> set cs. \<exists>l text.
               buildPrefix env opts [] (Some l) @ key c @
                 (case divider c of Some d \<Rightarrow> d | None \<Rightarrow> str '': '') @ text \<in> set shown))"
proof -
  note m = children_not_marker [OF assms(1,2)]
  have root: "render env opts root = walk_children env opts cs 0 (length cs - 1) [] [] 1"
    if "\<not> js_gt (Num 0) (maxDepth opts)"
    using walk_node [of 0 opts root env r "[]" "[]" None None "str '': ''"] that m assms
    by (simp add: render_def)
  have zero: "render env opts root = Inr []" if "maxDepth opts = Num 0"
    using root that walk_children_omitted [of 1 opts env cs 0 "length cs - 1" "[]" "[]"]
    by (simp add: js_gt_def)
  have one: "\<exists>l text. buildPrefix env opts [] (Some l) @ key c @
        (case divider c of Some d \<Rightarrow> d | None \<Rightarrow> str '': '') @ text \<in> set shown"
    if "\<not> js_gt (Num 1) (maxDepth opts)" "render env opts root = Inr shown" "c \<in> set cs" for c
  proof -
    from that(1) have "\<not> js_gt (Num 0) (maxDepth opts)"
      by (cases "maxDepth opts") (auto simp: js_gt_def)
    from root [OF this] that(2)
    have w: "walk_children env opts cs 0 (length cs - 1) [] [] 1 = Inr shown" by simp
    from that(1) have d: "\<not> js_gt (Num (int 1)) (maxDepth opts)" by simp
    from walk_children_lines [OF d w that(3)] show ?thesis .
  qed
  show ?thesis
    using root zero one walk_omitted [of depth opts env v lines levels keyLabel isLast dv]
      walk_keyed_line [of depth opts env v lines levels k isLast dv out]
    by blast
qed

text \<open>The object \<open>{a: 1, b: 2}\<close> and the options \<open>{maxDepth: d}\<close>.\<close>

definition ab :: jsval where
  "ab = VObject [(str ''a'', VNumber (Num 1)), (str ''b'', VNumber (Num 2))]"

definition depth_options :: "int \<Rightarrow> ObjectTreeOptions" where
  "depth_options d = no_options\<lparr>o_maxDepth := Some (Num d)\<rparr>"

text \<open>
  C2 as stated fails: with \<open>showRoot\<close> false and \<open>maxDepth = 0\<close> the two children of
  \<open>{a: 1, b: 2}\<close> are at depth 1, beyond the limit, and emit no line.
\<close>

theorem depth_zero_no_lines:
  "\<not> showRoot (resolveOptions (depth_options 0)) \<and>
   maxDepth (resolveOptions (depth_options 0)) = Num 0 \<and>
   renderValue plain_env ab (resolveOptions (depth_options 0)) =
     Inr \<lparr>header = str ''Object{}'',
          children = Some [\<lparr>key = str ''a'', val = VNumber (Num 1), divider = None\<rparr>,
                           \<lparr>key = str ''b'', val = VNumber (Num 2), divider = None\<rparr>]\<rparr> \<and>
   ObjectTree_render plain_env (depth_options 0) ab = Inr []"
  by (simp add: eval_defs ab_def depth_options_def plain_env_def)

theorem root_children_depth_witness:
  "render plain_env (resolveOptions (depth_options 0)) ab =
     walk_children plain_env (resolveOptions (depth_options 0))
       [\<lparr>key = str ''a'', val = VNumber (Num 1), divider = None\<rparr>,
        \<lparr>key = str ''b'', val = VNumber (Num 2), divider = None\<rparr>] 0 1 [] [] 1 \<and>
   walk plain_env (resolveOptions (depth_options 0)) (VNumber (Num 1)) [] [] 1
     (Some (str ''a'')) (Some False) (str '': '') = Inr [] \<and>
   render plain_env (resolveOptions (depth_options 0)) ab = Inr [] \<and>
   walk plain_env (resolveOptions (depth_options 1)) (VNumber (Num 1)) [] [] 1
     (Some (str ''a'')) (Some False) (str '': '') = Inr [[0x251C, 0x2500] @ str '' a: 1''] \<and>
   (\<exists>t rest. [[0x251C, 0x2500] @ str '' a: 1''] =
      [] @ [buildPrefix plain_env (resolveOptions (depth_options 1)) [] (Some False) @
            str ''a'' @ str '': '' @ t] @ rest) \<and>
   render plain_env (resolveOptions (depth_options 1)) ab =
     Inr [[0x251C, 0x2500] @ str '' a: 1'', [0x2514, 0x2500] @ str '' b: 2''] \<and>
   (\<exists>l t. buildPrefix plain_env (resolveOptions (depth_options 1)) [] (Some l) @
            str ''b'' @ str '': '' @ t \<in>
          set [[0x251C, 0x2500] @ str '' a: 1'', [0x2514, 0x2500] @ str '' b: 2''])"
proof -
  let ?cs = "[\<lparr>key = str ''a'', val = VNumber (Num 1), divider = None\<rparr>,
              \<lparr>key = str ''b'', val = VNumber (Num 2), divider = None\<rparr>]"
  let ?r = "\<lparr>header = str ''Object{}'', children = Some ?cs\<rparr>"
  let ?a = "[[0x251C, 0x2500] @ str '' a: 1'']"
  let ?shown = "[[0x251C, 0x2500] @ str '' a: 1'', [0x2514, 0x2500] @ str '' b: 2'']"
  have r: "renderValue plain_env ab (resolveOptions (depth_options d)) = Inr ?r" for d
    by (simp add: eval_defs ab_def depth_options_def plain_env_def)
  have c: "children ?r = Some ?cs" "?cs \<noteq> []" by simp_all
  have s: "\<not> showRoot (resolveOptions (depth_options d))" for d
    by (simp add: resolveOptions_def defaults_def depth_options_def no_options_def)
  have m: "maxDepth (resolveOptions (depth_options d)) = Num d" for d
    by (simp add: resolveOptions_def depth_options_def no_options_def)
  have a: "walk plain_env (resolveOptions (depth_options 1)) (VNumber (Num 1)) [] [] 1
      (Some (str ''a'')) (Some False) (str '': '') = Inr ?a"
    by (simp add: eval_defs depth_options_def plain_env_def)
  have one: "render plain_env (resolveOptions (depth_options 1)) ab = Inr ?shown"
    by (simp add: eval_defs ab_def depth_options_def plain_env_def)
  note zero = root_children_depth [OF r c s, of 0 1 "VNumber (Num 1)" "[]" "[]"
      "Some (str ''a'')" "Some False" "str '': ''"]
  note upto = root_children_depth [OF r c s, of 1 1 "VNumber (Num 1)" "[]" "[]"
      "Some (str ''a'')" "Some False" "str '': ''" "str ''a''" ?a ?shown]
  have z: "render plain_env (resolveOptions (depth_options 0)) ab =
        walk_children plain_env (resolveOptions (depth_options 0)) ?cs 0 1 [] [] 1"
      "walk plain_env (resolveOptions (depth_options 0)) (VNumber (Num 1)) [] [] 1
        (Some (str ''a'')) (Some False) (str '': '') = Inr []"
      "render plain_env (resolveOptions (depth_options 0)) ab = Inr []"
    using zero m [of 0] by (auto simp add: js_gt_def simp del: walk_children.simps)
  have u: "\<exists>t rest. ?a =
        [] @ [buildPrefix plain_env (resolveOptions (depth_options 1)) [] (Some False) @
              str ''a'' @ str '': '' @ t] @ rest"
      "\<exists>l t. buildPrefix plain_env (resolveOptions (depth_options 1)) [] (Some l) @
          str ''b'' @ str '': '' @ t \<in> set ?shown"
    using upto m [of 1] a one by (auto simp add: js_gt_def simp del: walk_children.simps)
  from z u a one show ?thesis by (intro conjI)
qed

section \<open>Truncation markers\<close>

lemma includes_js_append: "includes_js ys p \<Longrightarrow> includes_js (xs @ ys) p"
  by (induction xs) auto

lemma truncation_marker_entry:
  "truncation_marker (val (truncationEntry n)) =
     Some (str ''+'' @ String_number n @ str '' more'')"
proof -
  have "includes_js (str '' more'') (str ''more'')"
    by (simp add: str_def startsWith_def)
  then have "includes_js ((str ''+'' @ String_number n) @ str '' more'') (str ''more'')"
    by (rule includes_js_append)
  then show ?thesis
    by (simp add: truncationEntry_def startsWith_def str_def)
qed

text \<open>A marker made by \<open>truncationEntry\<close> is rendered, within \<open>maxDepth\<close>, as exactly one
  line (prefix, key, divider and the value, gray when colors are on), with no
  classification of it and no recursion into it.\<close>

lemma truncation_entry_line:
  assumes "\<not> js_gt (Num (int depth)) (maxDepth opts)"
  shows "walk env opts (val (truncationEntry n)) lines levels depth
           (Some (key (truncationEntry n))) isLast dv =
         Inr (lines @ [buildPrefix env opts levels isLast @ ellipsis @ dv @
                       (if chalk_level env > 0
                        then chalk env ''gray'' (str ''+'' @ String_number n @ str '' more'')
                        else str ''+'' @ String_number n @ str '' more'')])"
  using walk_marker [OF assms truncation_marker_entry,
      where env = env and lines = lines and levels = levels
        and keyLabel = "Some (key (truncationEntry n))" and isLast = isLast and dv = dv]
  by (simp add: truncationEntry_def)

text \<open>
  C1. A truncation marker is meant to be recognized by its sentinel key, the ellipsis,
  so that an ordinary string among the children of a container is never rendered as a
  truncation-marker line. The walker tests the value instead (a string that starts
  with \<open>+\<close> and contains \<open>more\<close>): the only child of the array \<open>["+1 more"]\<close> has the
  key \<open>0\<close>, not the ellipsis key, and an ordinary string as value, for which the
  classifier gives the quoted string as header; yet its line is the marker line, with
  the bare value.
\<close>

theorem ordinary_string_as_marker:
  "renderValue plain_env (VArray [VString (str ''+1 more'')]) (resolveOptions no_options) =
     Inr \<lparr>header = str ''Array(1)'',
          children = Some [\<lparr>key = str ''0'', val = VString (str ''+1 more''), divider = None\<rparr>]\<rparr> \<and>
   str ''0'' \<noteq> ellipsis \<and>
   renderValue plain_env (VString (str ''+1 more'')) (resolveOptions no_options) =
     Inr \<lparr>header = str [CHR 0x22] @ str ''+1 more'' @ str [CHR 0x22], children = None\<rparr> \<and>
   ObjectTree_render plain_env no_options (VArray [VString (str ''+1 more'')]) =
     Inr [[0x2514, 0x2500] @ str '' 0: +1 more'']"
  by (simp add: eval_defs plain_env_def)

section \<open>Roots without children\<close>

text \<open>Every value whose classified node has no children, the strings that pass the
  marker test of the walker apart, is rendered as the root with \<open>showRoot\<close> false to the
  empty list of lines.\<close>

lemma childless_root_no_lines:
  assumes "renderValue env v opts = Inr r"
    and "children r = None \<or> children r = Some []"
    and "\<not> showRoot opts"
    and "truncation_marker v = None"
  shows "render env opts v = Inr []"
proof (cases "js_gt (Num (int 0)) (maxDepth opts)")
  case True
  then show ?thesis unfolding render_def by (rule walk_omitted)
next
  case False
  from walk_node [OF False assms(4,1), of "[]" "[]" None None "str '': ''"] assms(2,3)
  show ?thesis by (auto simp: render_def)
qed

text \<open>
  C10. A value whose classified node has no children, rendered as the root with
  \<open>showRoot\<close> false, is meant to give the empty list of lines, not a header line. The
  string \<open>+1 more\<close> is classified as a node without children, and \<open>showRoot\<close> is false
  by default; yet rendering it as the root returns one line, the string itself: the
  marker branch of the walker pushes its line without the test of \<open>showRoot\<close> and of
  the depth that the line of every other root is subject to.
\<close>

theorem marker_string_root_line:
  "renderValue plain_env (VString (str ''+1 more'')) (resolveOptions no_options) =
     Inr \<lparr>header = str [CHR 0x22] @ str ''+1 more'' @ str [CHR 0x22], children = None\<rparr> \<and>
   \<not> showRoot (resolveOptions no_options) \<and>
   ObjectTree_render plain_env no_options (VString (str ''+1 more'')) = Inr [str ''+1 more'']"
  by (simp add: eval_defs plain_env_def)

section \<open>Rendering without the ISO date format\<close>

text \<open>
  The invalid date under the \<open>iso\<close> format is the only way for a rendering to fail:
  with any other date format the walk returns its lines for every value, every
  configuration and every environment.
\<close>

lemma walk_returns_both:
  assumes "format (date_opts opts) \<noteq> F_iso"
  shows "\<exists>out. walk env opts v lines levels depth keyLabel isLast dv = Inr out"
    and "\<exists>out. walk_children env opts cs i lastIndex lines' childLevels depth' = Inr out"
  using assms
proof (induction env opts v lines levels depth keyLabel isLast dv
    and env opts cs i lastIndex lines' childLevels depth' rule: walk_walk_children.induct)
  case (1 env opts v lines levels depth keyLabel isLast dv)
  show ?case
  proof (cases "js_gt (Num (int depth)) (maxDepth opts)")
    case True
    then show ?thesis by (simp add: walk_omitted)
  next
    case deep: False
    show ?thesis
    proof (cases "truncation_marker v")
      case (Some marker)
      with deep show ?thesis by (simp add: walk_marker)
    next
      case None
      from "1.prems" obtain result where r: "renderValue env v opts = Inr result"
        using renderValue_Inl_iff [of env v opts] by (cases "renderValue env v opts") auto
      note w = walk_node [OF deep None r, of lines levels keyLabel isLast dv]
      show ?thesis
      proof (cases "children result")
        case no: None
        with w show ?thesis by (simp add: Let_def)
      next
        case (Some cs)
        show ?thesis
        proof (cases "cs = []")
          case True
          with w Some show ?thesis by (simp add: Let_def)
        next
          case False
          then have "0 < length cs" by simp
          from "1.IH" [OF deep None r refl Some this "1.prems"] w Some False
          show ?thesis by (simp add: Let_def)
        qed
      qed
    qed
  qed
next
  case (2 env opts i lastIndex lines childLevels depth)
  show ?case by simp
next
  case (3 env opts child rest i lastIndex lines childLevels depth)
  from "3.IH"(1) [OF "3.prems"] obtain mid where
    mid: "walk env opts (val child) lines childLevels depth (Some (key child))
            (Some (i = lastIndex)) (case divider child of None \<Rightarrow> str '': '' | Some d \<Rightarrow> d) =
          Inr mid" by blast
  from "3.IH"(2) [OF mid "3.prems"] mid show ?case by simp
qed

lemma render_returns:
  "format (date_opts opts) \<noteq> F_iso \<Longrightarrow> \<exists>ls. render env opts v = Inr ls"
  unfolding render_def by (rule walk_returns_both(1))

section \<open>Two runs on one store\<close>

text \<open>
  A second embedding of the same code, for what the first cannot express: the objects
  of the input live in a store, where the program could change them, and so does the
  \<open>opts\<close> field of the \<open>ObjectTree\<close> instance (\<open>this.opts\<close>). A value is a primitive or
  a reference to an object of the store; objects may be shared and the graph may have
  cycles. The program allocates in the store the one array it changes in place: the
  array \<open>Object.keys\<close> returns, which \<open>sort\<close> reorders. The arrays and records that the
  program only builds and reads (\<open>lines\<close>, \<open>children\<close>, the results of the handlers)
  are values, as before. Every function takes the store and returns it.
\<close>

datatype hval =
    HNull
  | HUndefined
  | HBoolean bool
  | HNumber jsnum
  | HBigInt int
  | HSymbol jsstring
  | HString jsstring
  | HRef nat

datatype hobj =
    ODate "int option"
  | ORegExp jsstring jsstring
  | OArray "hval list"
  | OSet "hval list"
  | OMap "(jsstring \<times> hval) list"
  | OFunction jsstring jsstring
  | OInstance jsstring "(jsstring \<times> hval) list"
  | OObject "(jsstring \<times> hval) list"

text \<open>The store: the objects by address, the next free address, and \<open>this.opts\<close>.\<close>

record Store =
  heap :: "nat \<Rightarrow> hobj option"
  next_addr :: nat
  this_opts :: ResolvedOptions

text \<open>\<open>RenderResult\<close> and its entries, over values of the store.\<close>

record HChildEntry =
  key_h :: jsstring
  val_h :: hval
  divider_h :: "jsstring option"

record HRenderResult =
  header_h :: jsstring
  children_h :: "HChildEntry list option"

type_synonym Handler_h =
  "Env \<Rightarrow> Store \<Rightarrow> hval \<Rightarrow> ResolvedOptions \<Rightarrow> (js_error + HRenderResult option) \<times> Store"

text \<open>The handlers of \<open>handlers.ts\<close>, on a value of the store.\<close>

fun deref :: "Store \<Rightarrow> hval \<Rightarrow> hobj option" where
  "deref s (HRef a) = heap s a"
| "deref s _ = None"

definition truncationEntry_h :: "jsnum \<Rightarrow> HChildEntry" where
  "truncationEntry_h remaining =
     \<lparr>key_h = ellipsis,
      val_h = HString (str ''+'' @ String_number remaining @ str '' more''),
      divider_h = None\<rparr>"

fun handlePrimitive_h :: Handler_h where
  "handlePrimitive_h env s HNull opts =
     (Inr (Some \<lparr>header_h = colorize env (str ''null'') (c_null (colors opts)),
                 children_h = None\<rparr>), s)"
| "handlePrimitive_h env s HUndefined opts =
     (Inr (Some \<lparr>header_h = colorize env (str ''undefined'') (c_undefined (colors opts)),
                 children_h = None\<rparr>), s)"
| "handlePrimitive_h env s (HBoolean b) opts =
     (Inr (Some \<lparr>header_h = colorize env (if b then str ''true'' else str ''false'')
                              (c_boolean (colors opts)),
                 children_h = None\<rparr>), s)"
| "handlePrimitive_h env s (HNumber n) opts =
     (let text = (if n = NaN then str ''NaN'' else String_number n)
      in (Inr (Some \<lparr>header_h = colorize env text (c_number (colors opts)),
                      children_h = None\<rparr>), s))"
| "handlePrimitive_h env s (HBigInt i) opts =
     (Inr (Some \<lparr>header_h = colorize env (int_to_string i @ str ''n'') (c_bigint (colors opts)),
                 children_h = None\<rparr>), s)"
| "handlePrimitive_h env s (HSymbol d) opts =
     (Inr (Some \<lparr>header_h = colorize env (str ''Symbol('' @ d @ str '')'')
                              (c_symbol (colors opts)),
                 children_h = None\<rparr>), s)"
| "handlePrimitive_h env s _ opts = (Inr None, s)"

fun handleString_h :: Handler_h where
  "handleString_h env s (HString v) opts =
     (let maxLength = maxLength (string_opts opts);
          quotes = quotes (string_opts opts);
          truncated = (if js_gt (Num (int (length v))) maxLength
                       then slice0 v (js_sub maxLength (Num 1)) @ ellipsis else v);
          text = (if quotes = Q_single then str [CHR 0x27] @ truncated @ str [CHR 0x27]
                  else if quotes = Q_double then str [CHR 0x22] @ truncated @ str [CHR 0x22]
                  else truncated)
      in (Inr (Some \<lparr>header_h = colorize env text (c_string (colors opts)),
                      children_h = None\<rparr>), s))"
| "handleString_h env s _ opts = (Inr None, s)"

definition array_get_h :: "hval list \<Rightarrow> nat \<Rightarrow> hval" where
  "array_get_h xs i = (if i < length xs then xs ! i else HUndefined)"

definition get_property_h :: "(jsstring \<times> hval) list \<Rightarrow> jsstring \<Rightarrow> hval" where
  "get_property_h props k = (case map_of props k of Some v \<Rightarrow> v | None \<Rightarrow> HUndefined)"

function array_loop_h :: "hval list \<Rightarrow> jsnum \<Rightarrow> nat \<Rightarrow> HChildEntry list \<Rightarrow> HChildEntry list" where
  "array_loop_h v maxItems i entries =
     (if js_lt (Num (int i)) (Math_min (Num (int (length v))) maxItems)
      then array_loop_h v maxItems (i + 1)
             (entries @ [\<lparr>key_h = String_number (Num (int i)), val_h = array_get_h v i,
                          divider_h = None\<rparr>])
      else entries)"
  by pat_completeness auto
termination
  by (relation "measure (\<lambda>(v, maxItems, i, entries). length v - i)")
     (auto dest: js_lt_Math_min_Num)

declare array_loop_h.simps [simp del]

fun handleArray_h :: Handler_h where
  "handleArray_h env s (HRef a) opts =
     (case heap s a of
        Some (OArray v) \<Rightarrow>
          (let maxItems = array_maxItems (array_opts opts);
               showLength = showLength (array_opts opts);
               len = Num (int (length v));
               toShow = Math_min len maxItems;
               children = array_loop_h v maxItems 0 [];
               children = (if js_lt toShow len
                           then children @ [truncationEntry_h (js_sub len toShow)]
                           else children);
               label = (if showLength then str ''Array('' @ String_number len @ str '')''
                        else str ''Array'')
           in (Inr (Some \<lparr>header_h = colorize env label (c_array (colors opts)),
                           children_h = Some children\<rparr>), s))
      | _ \<Rightarrow> (Inr None, s))"
| "handleArray_h env s _ opts = (Inr None, s)"

fun set_loop_h :: "hval list \<Rightarrow> jsnum \<Rightarrow> nat \<Rightarrow> HChildEntry list \<Rightarrow> HChildEntry list" where
  "set_loop_h [] toShow i entries = entries"
| "set_loop_h (item # rest) toShow i entries =
     (if js_ge (Num (int i)) toShow then entries
      else set_loop_h rest toShow (i + 1)
             (entries @ [\<lparr>key_h = String_number (Num (int i)), val_h = item,
                          divider_h = None\<rparr>]))"

fun handleSet_h :: Handler_h where
  "handleSet_h env s (HRef a) opts =
     (case heap s a of
        Some (OSet v) \<Rightarrow>
          (let maxItems = set_maxItems (set_opts opts);
               showSize = set_showSize (set_opts opts);
               sz = Num (int (length v));
               toShow = Math_min sz maxItems;
               children = set_loop_h v toShow 0 [];
               children = (if js_lt toShow sz
                           then children @ [truncationEntry_h (js_sub sz toShow)]
                           else children);
               label = (if showSize then str ''Set('' @ String_number sz @ str '')''
                        else str ''Set'')
           in (Inr (Some \<lparr>header_h = colorize env label (c_set (colors opts)),
                           children_h = Some children\<rparr>), s))
      | _ \<Rightarrow> (Inr None, s))"
| "handleSet_h env s _ opts = (Inr None, s)"

fun map_loop_h ::
  "(jsstring \<times> hval) list \<Rightarrow> jsnum \<Rightarrow> jsstring \<Rightarrow> nat \<Rightarrow> HChildEntry list \<Rightarrow> HChildEntry list" where
  "map_loop_h [] toShow dv i entries = entries"
| "map_loop_h ((k, v) # rest) toShow dv i entries =
     (if js_ge (Num (int i)) toShow then entries
      else map_loop_h rest toShow dv (i + 1)
             (entries @ [\<lparr>key_h = k, val_h = v, divider_h = Some dv\<rparr>]))"

fun handleMap_h :: Handler_h where
  "handleMap_h env s (HRef a) opts =
     (case heap s a of
        Some (OMap v) \<Rightarrow>
          (let maxItems = map_maxItems (map_opts opts);
               showSize = map_showSize (map_opts opts);
               dv = map_divider (map_opts opts);
               sz = Num (int (length v));
               toShow = Math_min sz maxItems;
               children = map_loop_h v toShow dv 0 [];
               children = (if js_lt toShow sz
                           then children @ [truncationEntry_h (js_sub sz toShow)]
                           else children);
               label = (if showSize then str ''Map('' @ String_number sz @ str '')''
                        else str ''Map'')
           in (Inr (Some \<lparr>header_h = colorize env label (c_map (colors opts)),
                           children_h = Some children\<rparr>), s))
      | _ \<Rightarrow> (Inr None, s))"
| "handleMap_h env s _ opts = (Inr None, s)"

fun handleFunction_h :: Handler_h where
  "handleFunction_h env s (HRef a) opts =
     (case heap s a of
        Some (OFunction name src) \<Rightarrow>
          (if isClass (VFunction name src) then (Inr None, s)
           else let name = (if name = [] then str ''anonymous'' else name)
                in (Inr (Some \<lparr>header_h = colorize env (str ''Function('' @ name @ str '')'')
                                             (c_function (colors opts)),
                                children_h = None\<rparr>), s))
      | _ \<Rightarrow> (Inr None, s))"
| "handleFunction_h env s _ opts = (Inr None, s)"

fun handleClass_h :: Handler_h where
  "handleClass_h env s (HRef a) opts =
     (case heap s a of
        Some (OFunction name src) \<Rightarrow>
          (if \<not> isClass (VFunction name src) then (Inr None, s)
           else let name = (if name = [] then str ''anonymous'' else name)
                in (Inr (Some \<lparr>header_h = colorize env (str ''Class('' @ name @ str '')'')
                                             (c_class (colors opts)),
                                children_h = None\<rparr>), s))
      | _ \<Rightarrow> (Inr None, s))"
| "handleClass_h env s _ opts = (Inr None, s)"

fun handleDate_h :: Handler_h where
  "handleDate_h env s (HRef a) opts =
     (case heap s a of
        Some (ODate t) \<Rightarrow>
          (let format = format (date_opts opts)
           in if format = F_iso then
                (case Date_toISOString env t of
                   Inl e \<Rightarrow> (Inl e, s)
                 | Inr isoText \<Rightarrow>
                     (Inr (Some \<lparr>header_h = colorize env (str ''Date('' @ isoText @ str '')'')
                                              (c_date (colors opts)),
                                 children_h = None\<rparr>), s))
              else if format = F_locale then
                (Inr (Some \<lparr>header_h =
                              colorize env (str ''Date('' @ Date_toLocaleString env t @ str '')'')
                                (c_date (colors opts)),
                            children_h = None\<rparr>), s)
              else (Inr (Some \<lparr>header_h = colorize env (str ''Date()'') (c_date (colors opts)),
                               children_h = None\<rparr>), s))
      | _ \<Rightarrow> (Inr None, s))"
| "handleDate_h env s _ opts = (Inr None, s)"

fun handleRegExp_h :: Handler_h where
  "handleRegExp_h env s (HRef a) opts =
     (case heap s a of
        Some (ORegExp source flags) \<Rightarrow>
          (Inr (Some \<lparr>header_h = colorize env (str ''/'' @ source @ str ''/'' @ flags)
                                   (c_regexp (colors opts)),
                      children_h = None\<rparr>), s)
      | _ \<Rightarrow> (Inr None, s))"
| "handleRegExp_h env s _ opts = (Inr None, s)"

text \<open>\<open>Object.keys(value)\<close> allocates a new array of the keys; \<open>keys.sort()\<close> reorders
  the array it is called on, in place.\<close>

definition Object_keys_h :: "Store \<Rightarrow> (jsstring \<times> hval) list \<Rightarrow> nat \<times> Store" where
  "Object_keys_h s props =
     (next_addr s,
      s\<lparr>heap := (heap s)(next_addr s \<mapsto> OArray (map (\<lambda>(k, v). HString k) props)),
        next_addr := next_addr s + 1\<rparr>)"

fun string_of :: "hval \<Rightarrow> jsstring option" where
  "string_of (HString k) = Some k"
| "string_of _ = None"

fun strings_of :: "hval list \<Rightarrow> jsstring list" where
  "strings_of [] = []"
| "strings_of (x # xs) = (case string_of x of Some k \<Rightarrow> k # strings_of xs | None \<Rightarrow> strings_of xs)"

text \<open>The elements of the array at an address.\<close>

definition array_at :: "Store \<Rightarrow> nat \<Rightarrow> hval list" where
  "array_at s a = (case heap s a of Some (OArray xs) \<Rightarrow> xs | _ \<Rightarrow> [])"

text \<open>\<open>sort\<close> with the default order, on an array of strings: the array at the address
  is overwritten with its elements in ascending order.\<close>

definition Array_sort_h :: "Store \<Rightarrow> nat \<Rightarrow> Store" where
  "Array_sort_h s a =
     s\<lparr>heap := (heap s)(a \<mapsto> OArray (map HString (sort (strings_of (array_at s a)))))\<rparr>"

function object_loop_h ::
  "(jsstring \<times> hval) list \<Rightarrow> hval list \<Rightarrow> jsnum \<Rightarrow> nat \<Rightarrow> HChildEntry list \<Rightarrow> HChildEntry list" where
  "object_loop_h v keys limit i entries =
     (if js_lt (Num (int i)) (Math_min (Num (int (length keys))) limit)
      then (case string_of (array_get_h keys i) of
              Some k \<Rightarrow> object_loop_h v keys limit (i + 1)
                          (entries @ [\<lparr>key_h = k, val_h = get_property_h v k, divider_h = None\<rparr>])
            | None \<Rightarrow> object_loop_h v keys limit (i + 1) entries)
      else entries)"
  by pat_completeness auto
termination
  by (relation "measure (\<lambda>(v, keys, limit, i, entries). length keys - i)")
     (auto dest: js_lt_Math_min_Num)

declare object_loop_h.simps [simp del]

fun handleObject_h :: Handler_h where
  "handleObject_h env s (HRef a) opts =
     (case heap s a of
        Some (OObject v) \<Rightarrow>
          (let maxKeys = maxKeys (object_opts opts);
               sortKeys = sortKeys (object_opts opts);
               (keys, s) = Object_keys_h s v;
               s = (if sortKeys then Array_sort_h s keys else s);
               ks = array_at s keys;
               len = Num (int (length ks));
               toShow = Math_min len maxKeys;
               children = object_loop_h v ks maxKeys 0 [];
               children = (if js_lt toShow len
                           then children @ [truncationEntry_h (js_sub len toShow)]
                           else children)
           in (Inr (Some \<lparr>header_h = colorize env (str ''Object{}'') (c_object (colors opts)),
                           children_h = Some children\<rparr>), s))
      | _ \<Rightarrow> (Inr None, s))"
| "handleObject_h env s _ opts = (Inr None, s)"

fun handleInstance_h :: Handler_h where
  "handleInstance_h env s (HRef a) opts =
     (case heap s a of
        Some (OInstance ctor v) \<Rightarrow>
          (let ctorName = (if ctor = [] then str ''Object'' else ctor);
               (ownKeys, s) = Object_keys_h s v;
               ks = array_at s ownKeys;
               len = Num (int (length ks));
               toShow = Math_min len (maxKeys (object_opts opts));
               children = object_loop_h v ks (maxKeys (object_opts opts)) 0 [];
               children = (if js_lt toShow len
                           then children @ [truncationEntry_h (js_sub len toShow)]
                           else children)
           in (Inr (Some \<lparr>header_h = colorize env (ctorName @ str ''{}'')
                                        (c_instance (colors opts)),
                           children_h = Some children\<rparr>), s))
      | _ \<Rightarrow> (Inr None, s))"
| "handleInstance_h env s _ opts = (Inr None, s)"

definition handlers_h :: "Handler_h list" where
  "handlers_h =
     [handlePrimitive_h, handleString_h, handleDate_h, handleRegExp_h, handleArray_h,
      handleSet_h, handleMap_h, handleFunction_h, handleClass_h, handleInstance_h,
      handleObject_h]"

fun first_match_h ::
  "Handler_h list \<Rightarrow> Env \<Rightarrow> Store \<Rightarrow> hval \<Rightarrow> ResolvedOptions \<Rightarrow> (js_error + HRenderResult) \<times> Store" where
  "first_match_h [] env s v opts = (Inr \<lparr>header_h = str ''Unknown'', children_h = None\<rparr>, s)"
| "first_match_h (handler # rest) env s v opts =
     (case handler env s v opts of
        (Inl e, s) \<Rightarrow> (Inl e, s)
      | (Inr (Some result), s) \<Rightarrow> (Inr result, s)
      | (Inr None, s) \<Rightarrow> first_match_h rest env s v opts)"

definition renderValue_h ::
  "Env \<Rightarrow> Store \<Rightarrow> hval \<Rightarrow> ResolvedOptions \<Rightarrow> (js_error + HRenderResult) \<times> Store" where
  "renderValue_h env s v opts = first_match_h handlers_h env s v opts"

fun truncation_marker_h :: "hval \<Rightarrow> jsstring option" where
  "truncation_marker_h (HString x) =
     (if startsWith x (str ''+'') \<and> includes_js x (str ''more'') then Some x else None)"
| "truncation_marker_h _ = None"

text \<open>
  The walk. The graph of the store may have a cycle, on which the recursion of the
  source does not end: \<open>fuel\<close> bounds the depth of the recursion, and a run that uses
  it up has the outcome \<open>None\<close>. The options are read from the store, as \<open>this.opts\<close>.
\<close>

fun walk_h ::
  "nat \<Rightarrow> Env \<Rightarrow> Store \<Rightarrow> hval \<Rightarrow> jsstring list \<Rightarrow> bool list \<Rightarrow> nat \<Rightarrow> jsstring option \<Rightarrow>
   bool option \<Rightarrow> jsstring \<Rightarrow> (js_error + jsstring list) option \<times> Store"
and walk_children_h ::
  "nat \<Rightarrow> Env \<Rightarrow> Store \<Rightarrow> HChildEntry list \<Rightarrow> nat \<Rightarrow> nat \<Rightarrow> jsstring list \<Rightarrow> bool list \<Rightarrow> nat \<Rightarrow>
   (js_error + jsstring list) option \<times> Store"
where
  "walk_h 0 env s v lines levels depth keyLabel isLast dv = (None, s)"
| "walk_h (Suc fuel) env s v lines levels depth keyLabel isLast dv =
     (if js_gt (Num (int depth)) (maxDepth (this_opts s)) then (Some (Inr lines), s)
      else case truncation_marker_h v of
        Some marker \<Rightarrow>
          (let prefix = buildPrefix env (this_opts s) levels isLast;
               label = (case keyLabel of Some k \<Rightarrow> k @ dv | None \<Rightarrow> [])
           in (Some (Inr (lines @ [prefix @ label @
                 (if chalk_level env > 0 then chalk env ''gray'' marker else marker)])), s))
      | None \<Rightarrow>
          (case renderValue_h env s v (this_opts s) of
             (Inl e, s1) \<Rightarrow> (Some (Inl e), s1)
           | (Inr result, s1) \<Rightarrow>
               (let lines =
                      (case keyLabel of
                         Some k \<Rightarrow>
                           lines @ [buildPrefix env (this_opts s1) levels isLast @ k @ dv @
                                    header_h result]
                       | None \<Rightarrow>
                           if showRoot (this_opts s1) \<or> depth > 0
                           then lines @ [buildPrefix env (this_opts s1) levels isLast @
                                         header_h result]
                           else lines)
                in case children_h result of
                     None \<Rightarrow> (Some (Inr lines), s1)
                   | Some cs \<Rightarrow>
                       if length cs > 0
                       then walk_children_h fuel env s1 cs 0 (length cs - 1) lines
                              (if depth = 0 then levels else levels @ [isLast \<noteq> Some True])
                              (depth + 1)
                       else (Some (Inr lines), s1))))"
| "walk_children_h fuel env s [] i lastIndex lines childLevels depth = (Some (Inr lines), s)"
| "walk_children_h fuel env s (child # rest) i lastIndex lines childLevels depth =
     (case walk_h fuel env s (val_h child) lines childLevels depth (Some (key_h child))
             (Some (i = lastIndex))
             (case divider_h child of Some d \<Rightarrow> d | None \<Rightarrow> str '': '') of
        (Some (Inr lines'), s1) \<Rightarrow>
          walk_children_h fuel env s1 rest (i + 1) lastIndex lines' childLevels depth
      | (Some (Inl e), s1) \<Rightarrow> (Some (Inl e), s1)
      | (None, s1) \<Rightarrow> (None, s1))"

definition render_h ::
  "nat \<Rightarrow> Env \<Rightarrow> Store \<Rightarrow> hval \<Rightarrow> (js_error + jsstring list) option \<times> Store" where
  "render_h fuel env s root = walk_h fuel env s root [] [] 0 None None (str '': '')"

text \<open>
  A store is well formed up to \<open>n\<close> when the objects below \<open>n\<close> refer to objects below
  \<open>n\<close> only. Two stores agree up to \<open>n\<close> when they have the same \<open>this.opts\<close> and the
  same objects below \<open>n\<close>. A store extends another when it has the same \<open>this.opts\<close>
  and the same objects at the addresses the other had allocated.
\<close>

fun ref_ok :: "nat \<Rightarrow> hval \<Rightarrow> bool" where
  "ref_ok n (HRef a) = (a < n)"
| "ref_ok n _ = True"

fun obj_vals :: "hobj \<Rightarrow> hval list" where
  "obj_vals (OArray xs) = xs"
| "obj_vals (OSet xs) = xs"
| "obj_vals (OMap ps) = map snd ps"
| "obj_vals (OInstance ctor ps) = map snd ps"
| "obj_vals (OObject ps) = map snd ps"
| "obj_vals _ = []"

definition store_closed :: "nat \<Rightarrow> Store \<Rightarrow> bool" where
  "store_closed n s = (\<forall>a<n. \<forall>ob. heap s a = Some ob \<longrightarrow> (\<forall>v \<in> set (obj_vals ob). ref_ok n v))"

definition stores_agree :: "nat \<Rightarrow> Store \<Rightarrow> Store \<Rightarrow> bool" where
  "stores_agree n s s' = (this_opts s = this_opts s' \<and> (\<forall>a<n. heap s a = heap s' a))"

definition store_extends :: "Store \<Rightarrow> Store \<Rightarrow> bool" where
  "store_extends s s1 =
     (this_opts s1 = this_opts s \<and> next_addr s \<le> next_addr s1 \<and>
      (\<forall>a<next_addr s. heap s1 a = heap s a))"

lemma extends_refl [simp]: "store_extends s s"
  by (simp add: store_extends_def)

lemma extends_trans: "store_extends s s1 \<Longrightarrow> store_extends s1 s2 \<Longrightarrow> store_extends s s2"
  by (auto simp: store_extends_def)

lemma extends_Object_keys_h: "store_extends s (snd (Object_keys_h s props))"
  by (simp add: store_extends_def Object_keys_h_def)

lemma handler_extends:
  "store_extends s (snd (handlePrimitive_h env s v opts))"
  "store_extends s (snd (handleString_h env s v opts))"
  "store_extends s (snd (handleDate_h env s v opts))"
  "store_extends s (snd (handleRegExp_h env s v opts))"
  "store_extends s (snd (handleArray_h env s v opts))"
  "store_extends s (snd (handleSet_h env s v opts))"
  "store_extends s (snd (handleMap_h env s v opts))"
  "store_extends s (snd (handleFunction_h env s v opts))"
  "store_extends s (snd (handleClass_h env s v opts))"
  "store_extends s (snd (handleInstance_h env s v opts))"
  "store_extends s (snd (handleObject_h env s v opts))"
  by (cases v; auto simp: Let_def store_extends_def Object_keys_h_def Array_sort_h_def
      split: option.splits hobj.splits sum.splits prod.splits)+

lemma first_match_h_extends:
  "(\<And>h s v. h \<in> set hs \<Longrightarrow> store_extends s (snd (h env s v opts))) \<Longrightarrow>
   store_extends s (snd (first_match_h hs env s v opts))"
proof (induction hs arbitrary: s)
  case Nil
  then show ?case by simp
next
  case (Cons h hs)
  obtain r s1 where h: "h env s v opts = (r, s1)" by (cases "h env s v opts")
  with Cons.prems [of h s v] have e: "store_extends s s1" by simp
  show ?case
  proof (cases r)
    case (Inl e')
    with h e show ?thesis by simp
  next
    case (Inr x)
    show ?thesis
    proof (cases x)
      case None
      from Cons.IH [of s1] Cons.prems have "store_extends s1 (snd (first_match_h hs env s1 v opts))"
        by simp
      with e h Inr None show ?thesis by (auto intro: extends_trans)
    next
      case (Some res)
      with h e Inr show ?thesis by simp
    qed
  qed
qed

lemma renderValue_h_extends: "store_extends s (snd (renderValue_h env s v opts))"
  unfolding renderValue_h_def
  by (rule first_match_h_extends) (auto simp: handlers_h_def handler_extends)

text \<open>The result of a classification depends on the objects of the input only, not
  on what has been allocated since; the values of its children are values of the
  input.\<close>

lemma renderValue_h_fst:
  assumes "stores_agree n s s'" and "ref_ok n v"
  shows "fst (renderValue_h env s v opts) = fst (renderValue_h env s' v opts)"
proof (cases v)
  case (HRef a)
  with assms have h: "heap s' a = heap s a" by (simp add: stores_agree_def)
  show ?thesis
  proof (cases "heap s a")
    case None
    with HRef h show ?thesis by (simp add: renderValue_h_def handlers_h_def)
  next
    case (Some ob)
    with HRef h show ?thesis
      by (cases ob)
        (simp_all add: renderValue_h_def handlers_h_def Let_def Object_keys_h_def
          Array_sort_h_def array_at_def split: sum.splits)
  qed
qed (simp_all add: renderValue_h_def handlers_h_def Let_def)

lemma array_loop_h_val:
  "c \<in> set (array_loop_h v m i acc) \<Longrightarrow> c \<in> set acc \<or> val_h c \<in> set v"
proof (induction v m i acc rule: array_loop_h.induct)
  case (1 v maxItems i entries)
  show ?case
  proof (cases "js_lt (Num (int i)) (Math_min (Num (int (length v))) maxItems)")
    case True
    then have "i < length v" by (auto dest: js_lt_Math_min_Num)
    with 1 True show ?thesis
      by (subst (asm) (2) array_loop_h.simps) (auto simp: array_get_h_def)
  next
    case False
    with 1 show ?thesis by (subst (asm) (2) array_loop_h.simps) simp
  qed
qed

lemma set_loop_h_val:
  "c \<in> set (set_loop_h items t i acc) \<Longrightarrow> c \<in> set acc \<or> val_h c \<in> set items"
  by (induction items t i acc rule: set_loop_h.induct) (auto split: if_splits)

lemma map_loop_h_val:
  "c \<in> set (map_loop_h items t dv i acc) \<Longrightarrow> c \<in> set acc \<or> val_h c \<in> snd ` set items"
  by (induction items t dv i acc rule: map_loop_h.induct) (auto split: if_splits)

lemma object_loop_h_val:
  "c \<in> set (object_loop_h v ks m i acc) \<Longrightarrow>
   c \<in> set acc \<or> (\<exists>k. val_h c = get_property_h v k)"
proof (induction v ks m i acc rule: object_loop_h.induct)
  case (1 v keys limit i entries)
  show ?case
  proof (cases "js_lt (Num (int i)) (Math_min (Num (int (length keys))) limit)")
    case True
    with 1 show ?thesis
      by (subst (asm) (3) object_loop_h.simps) (auto split: option.splits)
  next
    case False
    with 1 show ?thesis by (subst (asm) (3) object_loop_h.simps) simp
  qed
qed

lemma ok_get_property_h:
  "\<forall>v \<in> snd ` set ps. ref_ok n v \<Longrightarrow> ref_ok n (get_property_h ps k)"
  by (auto simp: get_property_h_def split: option.splits dest!: map_of_SomeD)

lemma ok_truncationEntry_h [simp]: "ref_ok n (val_h (truncationEntry_h r))"
  by (simp add: truncationEntry_h_def)

lemma renderValue_h_children_ok:
  assumes "store_closed n s" and "ref_ok n v" and "renderValue_h env s v opts = (Inr r, s1)"
    and "children_h r = Some cs" and "c \<in> set cs"
  shows "ref_ok n (val_h c)"
proof (cases v)
  case (HRef a)
  with assms(2) have a: "a < n" by simp
  show ?thesis
  proof (cases "heap s a")
    case None
    with HRef assms(3,4) show ?thesis
      by (auto simp: renderValue_h_def handlers_h_def)
  next
    case (Some ob)
    with assms(1) a have vals: "\<forall>v \<in> set (obj_vals ob). ref_ok n v"
      by (simp add: store_closed_def)
    show ?thesis
    proof (cases ob)
      case (OArray xs)
      with HRef Some assms(3,4,5) vals show ?thesis
        by (auto simp: renderValue_h_def handlers_h_def Let_def split: if_splits
            dest!: array_loop_h_val)
    next
      case (OSet xs)
      with HRef Some assms(3,4,5) vals show ?thesis
        by (auto simp: renderValue_h_def handlers_h_def Let_def split: if_splits
            dest!: set_loop_h_val)
    next
      case (OMap ps)
      with vals have "ref_ok n x" if "(k, x) \<in> set ps" for k x
        using that by force
      with OMap HRef Some assms(3,4,5) show ?thesis
        by (auto simp: renderValue_h_def handlers_h_def Let_def split: if_splits
            dest!: map_loop_h_val)
    next
      case (OInstance ctor ps)
      with vals have "ref_ok n (get_property_h ps k)" for k
        by (intro ok_get_property_h) simp
      with OInstance HRef Some assms(3,4,5) show ?thesis
        by (auto simp: renderValue_h_def handlers_h_def Let_def Object_keys_h_def
            split: if_splits prod.splits dest!: object_loop_h_val)
    next
      case (OObject ps)
      with vals have "ref_ok n (get_property_h ps k)" for k
        by (intro ok_get_property_h) simp
      with OObject HRef Some assms(3,4,5) show ?thesis
        by (auto simp: renderValue_h_def handlers_h_def Let_def Object_keys_h_def
            split: if_splits prod.splits dest!: object_loop_h_val)
    qed (use HRef Some assms(3,4) in
        \<open>auto simp: renderValue_h_def handlers_h_def Let_def split: if_splits sum.splits\<close>)
  qed
qed (use assms(3,4) in \<open>auto simp: renderValue_h_def handlers_h_def Let_def\<close>)

text \<open>A walk only allocates: it leaves \<open>this.opts\<close> and every object of the input as
  they are.\<close>

lemma walk_h_extends_both:
  "store_extends s (snd (walk_h fuel env s v lines levels depth keyLabel isLast dv))"
  "store_extends s' (snd (walk_children_h fuel' env' s' cs i lastIndex lines' childLevels depth'))"
proof (induction fuel env s v lines levels depth keyLabel isLast dv
    and fuel' env' s' cs i lastIndex lines' childLevels depth'
    rule: walk_h_walk_children_h.induct)
  case (1 env s v lines levels depth keyLabel isLast dv)
  show ?case by simp
next
  case (2 fuel env s v lines levels depth keyLabel isLast dv)
  obtain x y where r: "renderValue_h env s v (this_opts s) = (x, y)"
    by (cases "renderValue_h env s v (this_opts s)")
  then have e: "store_extends s y"
    using renderValue_h_extends [of s env v "this_opts s"] by simp
  show ?case
  proof (cases "\<not> js_gt (Num (int depth)) (maxDepth (this_opts s)) \<and>
      truncation_marker_h v = None")
    case False
    then show ?thesis by (auto simp: Let_def)
  next
    case True
    show ?thesis
    proof (cases x)
      case (Inl err)
      with True r e show ?thesis by simp
    next
      case (Inr b)
      show ?thesis
      proof (cases "children_h b")
        case None
        with True r e Inr show ?thesis by (simp add: Let_def)
      next
        case (Some cs)
        show ?thesis
        proof (cases "0 < length cs")
          case False
          with True r e Inr Some show ?thesis by (simp add: Let_def)
        next
          case len: True
          from True have t: "\<not> js_gt (Num (int depth)) (maxDepth (this_opts s))"
            "truncation_marker_h v = None" by simp_all
          note ih = 2 [OF t r [symmetric] Inr refl Some len]
          with True r e Inr Some len show ?thesis
            by (auto simp: Let_def intro: extends_trans)
        qed
      qed
    qed
  qed
next
  case (3 fuel env s i lastIndex lines childLevels depth)
  show ?case by simp
next
  case (4 fuel env s child rest i lastIndex lines childLevels depth)
  let ?w = "walk_h fuel env s (val_h child) lines childLevels depth (Some (key_h child))
      (Some (i = lastIndex)) (case divider_h child of None \<Rightarrow> str '': '' | Some d \<Rightarrow> d)"
  obtain x y where w: "?w = (x, y)" by (cases ?w)
  with 4(1) have e: "store_extends s y" by simp
  show ?case
  proof (cases x)
    case None
    with w e show ?thesis by simp
  next
    case (Some x2)
    show ?thesis
    proof (cases x2)
      case (Inl err)
      with w e Some show ?thesis by simp
    next
      case (Inr b)
      from 4(2) [OF w [symmetric] Some Inr] e w Some Inr show ?thesis
        by (auto intro: extends_trans)
    qed
  qed
qed

lemma agree_extends:
  assumes "stores_agree n s s'" and "store_extends s s1" and "store_extends s' s1'"
    and "n \<le> next_addr s" and "n \<le> next_addr s'"
  shows "stores_agree n s1 s1'"
  using assms by (auto simp: stores_agree_def store_extends_def)

lemma closed_extends:
  assumes "store_closed n s" and "store_extends s s1" and "n \<le> next_addr s"
  shows "store_closed n s1"
  using assms by (auto simp: store_closed_def store_extends_def)

lemma closed_agree:
  assumes "store_closed n s" and "stores_agree n s s'"
  shows "store_closed n s'"
  using assms by (auto simp: store_closed_def stores_agree_def)

text \<open>The outcome of a walk is the same in two stores that agree on the input.\<close>

lemma walk_h_fst_both:
  "\<forall>t. stores_agree n s t \<and> store_closed n s \<and> n \<le> next_addr s \<and> n \<le> next_addr t \<and> ref_ok n v \<longrightarrow>
     fst (walk_h fuel env s v lines levels depth keyLabel isLast dv) =
     fst (walk_h fuel env t v lines levels depth keyLabel isLast dv)"
  "\<forall>t. stores_agree n s' t \<and> store_closed n s' \<and> n \<le> next_addr s' \<and> n \<le> next_addr t \<and>
       (\<forall>c \<in> set cs. ref_ok n (val_h c)) \<longrightarrow>
     fst (walk_children_h fuel' env' s' cs i lastIndex lines' childLevels depth') =
     fst (walk_children_h fuel' env' t cs i lastIndex lines' childLevels depth')"
proof (induction fuel env s v lines levels depth keyLabel isLast dv
    and fuel' env' s' cs i lastIndex lines' childLevels depth'
    rule: walk_h_walk_children_h.induct)
  case (1 env s v lines levels depth keyLabel isLast dv)
  show ?case by simp
next
  case (2 fuel env s v lines levels depth keyLabel isLast dv)
  show ?case
  proof (intro allI impI, elim conjE)
    fix t
    assume a: "stores_agree n s t" and c: "store_closed n s" and b: "n \<le> next_addr s" "n \<le> next_addr t"
      and v: "ref_ok n v"
    from a have o: "this_opts t = this_opts s" by (simp add: stores_agree_def)
    obtain x y where r: "renderValue_h env s v (this_opts s) = (x, y)"
      by (cases "renderValue_h env s v (this_opts s)")
    obtain x' y' where r': "renderValue_h env t v (this_opts s) = (x', y')"
      by (cases "renderValue_h env t v (this_opts s)")
    from renderValue_h_fst [OF a v, of env "this_opts s"] r r' have x: "x' = x" by simp
    from r have e: "store_extends s y"
      using renderValue_h_extends [of s env v "this_opts s"] by simp
    from r' have e': "store_extends t y'"
      using renderValue_h_extends [of t env v "this_opts s"] by simp
    from e e' o have oy: "this_opts y = this_opts s" "this_opts y' = this_opts s"
      by (simp_all add: store_extends_def)
    show "fst (walk_h (Suc fuel) env s v lines levels depth keyLabel isLast dv) =
      fst (walk_h (Suc fuel) env t v lines levels depth keyLabel isLast dv)"
    proof (cases "\<not> js_gt (Num (int depth)) (maxDepth (this_opts s)) \<and>
        truncation_marker_h v = None")
      case False
      with o show ?thesis by (auto simp: Let_def)
    next
      case True
      show ?thesis
      proof (cases x)
        case (Inl err)
        with True r r' x o show ?thesis by simp
      next
        case (Inr res)
        show ?thesis
        proof (cases "children_h res")
          case None
          with True r r' x o oy Inr show ?thesis by (simp add: Let_def split: option.splits)
        next
          case (Some cs)
          show ?thesis
          proof (cases "0 < length cs")
            case False
            with True r r' x o oy Inr Some show ?thesis by (simp add: Let_def split: option.splits)
          next
            case len: True
            from True have tm: "\<not> js_gt (Num (int depth)) (maxDepth (this_opts s))"
              "truncation_marker_h v = None" by simp_all
            note ih = 2 [OF tm r [symmetric] Inr refl Some len, rule_format, of y']
            have "stores_agree n y y'" by (rule agree_extends [OF a e e' b])
            moreover have "store_closed n y" by (rule closed_extends [OF c e b(1)])
            moreover from e e' b have "n \<le> next_addr y" "n \<le> next_addr y'"
              by (simp_all add: store_extends_def)
            moreover have "\<forall>c \<in> set cs. ref_ok n (val_h c)"
              using renderValue_h_children_ok [OF c v _ Some] r Inr by blast
            ultimately have "fst (walk_children_h fuel env y cs 0 (length cs - 1)
                (case keyLabel of
                   None \<Rightarrow>
                     if showRoot (this_opts y) \<or> 0 < depth
                     then lines @ [buildPrefix env (this_opts y) levels isLast @ header_h res]
                     else lines
                 | Some k \<Rightarrow>
                     lines @ [buildPrefix env (this_opts y) levels isLast @ k @ dv @
                              header_h res])
                (if depth = 0 then levels else levels @ [isLast \<noteq> Some True]) (depth + 1)) =
              fst (walk_children_h fuel env y' cs 0 (length cs - 1)
                (case keyLabel of
                   None \<Rightarrow>
                     if showRoot (this_opts y) \<or> 0 < depth
                     then lines @ [buildPrefix env (this_opts y) levels isLast @ header_h res]
                     else lines
                 | Some k \<Rightarrow>
                     lines @ [buildPrefix env (this_opts y) levels isLast @ k @ dv @
                              header_h res])
                (if depth = 0 then levels else levels @ [isLast \<noteq> Some True]) (depth + 1))"
              using ih by blast
            with True r r' x o oy Inr Some len show ?thesis
              by (simp add: Let_def cong: option.case_cong)
          qed
        qed
      qed
    qed
  qed
next
  case (3 fuel env s i lastIndex lines childLevels depth)
  show ?case by simp
next
  case (4 fuel env s child rest i lastIndex lines childLevels depth)
  show ?case
  proof (intro allI impI, elim conjE)
    fix t
    assume a: "stores_agree n s t" and c: "store_closed n s" and b: "n \<le> next_addr s" "n \<le> next_addr t"
      and v: "\<forall>c \<in> set (child # rest). ref_ok n (val_h c)"
    let ?w = "\<lambda>s. walk_h fuel env s (val_h child) lines childLevels depth (Some (key_h child))
      (Some (i = lastIndex)) (case divider_h child of None \<Rightarrow> str '': '' | Some d \<Rightarrow> d)"
    obtain x y where w: "?w s = (x, y)" by (cases "?w s")
    obtain x' y' where w': "?w t = (x', y')" by (cases "?w t")
    from 4(1) [rule_format, of t] a c b v w w' have x: "x' = x" by simp
    from w have e: "store_extends s y" using walk_h_extends_both(1) [of s fuel env "val_h child"] 
      by (metis snd_conv)
    from w' have e': "store_extends t y'" using walk_h_extends_both(1) [of t fuel env "val_h child"]
      by (metis snd_conv)
    show "fst (walk_children_h fuel env s (child # rest) i lastIndex lines childLevels depth) =
      fst (walk_children_h fuel env t (child # rest) i lastIndex lines childLevels depth)"
    proof (cases x)
      case None
      with w w' x show ?thesis by simp
    next
      case (Some x2)
      show ?thesis
      proof (cases x2)
        case (Inl err)
        with w w' x Some show ?thesis by simp
      next
        case (Inr ls)
        note ih = 4(2) [OF w [symmetric] Some Inr, rule_format, of y']
        have "stores_agree n y y'" by (rule agree_extends [OF a e e' b])
        moreover have "store_closed n y" by (rule closed_extends [OF c e b(1)])
        moreover from e e' b have "n \<le> next_addr y" "n \<le> next_addr y'"
          by (simp_all add: store_extends_def)
        ultimately have "fst (walk_children_h fuel env y rest (i + 1) lastIndex ls
              childLevels depth) =
            fst (walk_children_h fuel env y' rest (i + 1) lastIndex ls childLevels depth)"
          using ih v by simp
        with w w' x Some Inr show ?thesis by simp
      qed
    qed
  qed
qed

text \<open>
  C9. For every value and every configuration, rendering the same unmodified value
  twice with the same configuration and the same color environment yields identical
  line sequences: the first run leaves \<open>this.opts\<close> and every object of the input as
  they were (it only allocates the arrays of keys it sorts), and the second run, on the
  store the first one leaves, has the outcome of the first (the same lines, the same
  exception, or the same exhaustion of the recursion depth).
\<close>

theorem render_twice:
  assumes "store_closed (next_addr s) s" and "ref_ok (next_addr s) root"
    and "render_h fuel env s root = (first, s1)"
    and "render_h fuel env s1 root = (second, s2)"
  shows "second = first \<and> this_opts s1 = this_opts s \<and>
         (\<forall>a < next_addr s. heap s1 a = heap s a)"
proof -
  from assms(3) have e: "store_extends s s1"
    using walk_h_extends_both(1) [of s fuel env root "[]" "[]" 0 None None "str '': ''"]
    by (simp add: render_h_def)
  then have a: "stores_agree (next_addr s) s s1" and b: "next_addr s \<le> next_addr s1"
    by (simp_all add: stores_agree_def store_extends_def)
  from walk_h_fst_both(1) [rule_format, of "next_addr s" s s1 root fuel env "[]" "[]" 0
      None None "str '': ''"] a b assms
  have "second = first" by (simp add: render_h_def)
  with e show ?thesis by (simp add: store_extends_def)
qed

text \<open>A store with the object \<open>{b: [2], a: 1}\<close> at address 0 and its array at address
  1. The first run leaves the sorted array of keys at address 2.\<close>

definition ab_store :: Store where
  "ab_store =
     \<lparr>heap = (\<lambda>a. None)(0 \<mapsto> OObject [(str ''b'', HRef 1), (str ''a'', HNumber (Num 1))],
                         1 \<mapsto> OArray [HNumber (Num 2)]),
      next_addr = 2,
      this_opts = resolveOptions no_options\<rparr>"

lemmas eval_defs_h =
  renderValue_h_def handlers_h_def Object_keys_h_def Array_sort_h_def array_at_def
  object_loop_h.simps array_loop_h.simps array_get_h_def get_property_h_def render_h_def
  truncationEntry_h_def

theorem render_twice_witness:
  "store_closed (next_addr ab_store) ab_store \<and> ref_ok (next_addr ab_store) (HRef 0) \<and>
   fst (render_h 3 plain_env ab_store (HRef 0)) =
     Some (Inr [[0x251C, 0x2500] @ str '' a: 1'',
                [0x2514, 0x2500] @ str '' b: Array(1)'',
                str ''   '' @ [0x2514, 0x2500] @ str '' 0: 2'']) \<and>
   heap (snd (render_h 3 plain_env ab_store (HRef 0))) 2 =
     Some (OArray [HString (str ''a''), HString (str ''b'')]) \<and>
   fst (render_h 3 plain_env (snd (render_h 3 plain_env ab_store (HRef 0))) (HRef 0)) =
     Some (Inr [[0x251C, 0x2500] @ str '' a: 1'',
                [0x2514, 0x2500] @ str '' b: Array(1)'',
                str ''   '' @ [0x2514, 0x2500] @ str '' 0: 2''])"
proof -
  let ?run = "render_h 3 plain_env ab_store (HRef 0)"
  let ?again = "render_h 3 plain_env (snd ?run) (HRef 0)"
  have c: "store_closed (next_addr ab_store) ab_store"
    by (simp add: store_closed_def ab_store_def less_Suc_eq numeral_2_eq_2)
  have o: "ref_ok (next_addr ab_store) (HRef 0)"
    by (simp add: ab_store_def)
  have r: "fst ?run =
      Some (Inr [[0x251C, 0x2500] @ str '' a: 1'',
                 [0x2514, 0x2500] @ str '' b: Array(1)'',
                 str ''   '' @ [0x2514, 0x2500] @ str '' 0: 2''])"
    "heap (snd ?run) 2 = Some (OArray [HString (str ''a''), HString (str ''b'')])"
    by (simp_all add: eval_defs_h eval_defs ab_store_def plain_env_def numeral_3_eq_3)
  from render_twice [OF c o, of 3 plain_env "fst ?run" "snd ?run" "fst ?again" "snd ?again"]
  have "fst ?again = fst ?run" by simp
  with c o r show ?thesis by simp
qed

end
